theory Spec2Isabelle
  imports Complex_Main "HOL-Library.Signed_Division" "HOL-Library.Multiset"
begin

section \<open>Results, checked runtime errors and loops\<close>

text \<open>
  Every way in which the C program stops early is a value of \<open>error\<close>.  The
  \<open>assert\<close> of \<open>assert.h\<close> raises a checked runtime error that nobody catches;
  \<open>exit(1)\<close> after a diagnostic carries the diagnostic; a call through a null function
  pointer and a write through a pointer that no branch assigned are kept apart from both.
  C \<open>int\<close> values are modelled as mathematical integers.  The one product of the
  sources that can leave the range of \<open>int\<close> is \<open>blocksize * blocksize\<close> in
  \<open>cell_init\<close>; signed overflow is undefined behaviour, which the model reports as
  \<open>Signed_Overflow\<close>.  Every other intermediate value is bounded by a dimension of the
  grid or by that square.  Division by zero is undefined as well and is
  \<open>Division_By_Zero\<close>.  C division and remainder truncate towards zero, so they are
  \<open>sdiv\<close> and \<open>smod\<close>, not \<open>div\<close> and \<open>mod\<close>.  Allocation (\<open>NEW\<close>,
  \<open>malloc\<close>) is taken to succeed.
\<close>

datatype error =
    Assert_Failed
  | Exit_Failure string
  | Null_Function
  | Uninitialized_Pointer
  | Signed_Overflow
  | Division_By_Zero

text \<open>\<open>INT_MAX\<close> of \<open>limits.h\<close> for a 32-bit \<open>int\<close>.\<close>

definition INT_MAX :: int where
  "INT_MAX = 2147483647"

text \<open>
  \<open>for (int i = i0; i < n; i++) body\<close>, where the body may stop the program, threading
  the state \<open>s\<close>.
\<close>

function for_loop :: "int \<Rightarrow> int \<Rightarrow> (int \<Rightarrow> 's \<Rightarrow> error + 's) \<Rightarrow> 's \<Rightarrow> error + 's" where
  "for_loop i n body s =
     (if i < n
      then (case body i s of Inl e \<Rightarrow> Inl e | Inr s' \<Rightarrow> for_loop (i + 1) n body s')
      else Inr s)"
  by pat_completeness auto
termination
  by (relation "measure (\<lambda>(i, n, body, s). nat (n - i))") auto

declare for_loop.simps [simp del]

text \<open>Running a state transformer over a list of loop indices, stopping at the first error.\<close>

fun foldM :: "('x \<Rightarrow> 's \<Rightarrow> error + 's) \<Rightarrow> 'x list \<Rightarrow> 's \<Rightarrow> error + 's" where
  "foldM f [] s = Inr s"
| "foldM f (x # xs) s = (case f x s of Inl e \<Rightarrow> Inl e | Inr s' \<Rightarrow> foldM f xs s')"

section \<open>The leaf containers\<close>

subsection \<open>UArray: the fixed-capacity buffer\<close>

text \<open>
  Modelled from the spec: \<open>uarray.h\<close> and its implementation are not among the sources.
  The spec calls it the fixed-capacity buffer: homogeneous contiguous storage of N elements
  of fixed element size, index-checked access, no resize.  Freshly allocated storage is
  zeroed, which is the \<open>0\<close> of the element type.  A handle may be the null pointer, which
  is what zeroed storage of handles holds.  A pointer to an element is its index.
\<close>

datatype 'a UArray_T = UArray_NULL | UArray (UArray_elems: "'a list")

instantiation UArray_T :: (type) zero
begin
definition zero_UArray_T :: "'a UArray_T" where "zero_UArray_T = UArray_NULL"
instance ..
end

definition UArray_new :: "int \<Rightarrow> int \<Rightarrow> error + ('a::zero) UArray_T" where
  "UArray_new len sz =
     (if 0 \<le> len \<and> 0 < sz then Inr (UArray (replicate (nat len) 0)) else Inl Assert_Failed)"

fun UArray_length :: "'a UArray_T \<Rightarrow> int" where
  "UArray_length UArray_NULL = 0"
| "UArray_length (UArray xs) = int (length xs)"

fun UArray_at :: "'a UArray_T \<Rightarrow> int \<Rightarrow> error + int" where
  "UArray_at UArray_NULL i = Inl Assert_Failed"
| "UArray_at (UArray xs) i = (if 0 \<le> i \<and> i < int (length xs) then Inr i else Inl Assert_Failed)"

text \<open>Reading and writing through an element pointer of a buffer.\<close>

fun UArray_load :: "'a UArray_T \<Rightarrow> int \<Rightarrow> 'a" where
  "UArray_load a i = UArray_elems a ! nat i"

fun UArray_store :: "'a UArray_T \<Rightarrow> int \<Rightarrow> 'a \<Rightarrow> 'a UArray_T" where
  "UArray_store UArray_NULL i v = UArray_NULL"
| "UArray_store (UArray xs) i v = UArray (xs[nat i := v])"

subsection \<open>UArray2: the plain two-dimensional array\<close>

text \<open>
  Modelled from the spec: \<open>uarray2.h\<close> and its implementation are not among the sources.
  The spec treats the flat array as a given leaf: a flat row-major buffer with trivial
  index arithmetic, exposing new, free, width, height, size, at, map_row_major and
  map_col_major; invalid dimensions or element size at construction and out-of-range
  coordinates are precondition violations.  A pointer to an element is its flat index
  \<open>row * width + col\<close>.  A traversal invokes the callback once per element with the
  column, the row, the handle, the element pointer and the closure; the callback hands back
  the array (it may have written through the element pointer) and the closure.
\<close>

record 'a UArray2_T =
  ua2_width :: int
  ua2_height :: int
  ua2_size :: int
  ua2_elems :: "'a list"

definition UArray2_new :: "int \<Rightarrow> int \<Rightarrow> int \<Rightarrow> error + ('a::zero) UArray2_T" where
  "UArray2_new w h sz =
     (if 0 < w \<and> 0 < h \<and> 0 < sz
      then Inr \<lparr>ua2_width = w, ua2_height = h, ua2_size = sz,
                ua2_elems = replicate (nat (w * h)) 0\<rparr>
      else Inl Assert_Failed)"

definition UArray2_width :: "'a UArray2_T \<Rightarrow> int" where
  "UArray2_width a = ua2_width a"

definition UArray2_height :: "'a UArray2_T \<Rightarrow> int" where
  "UArray2_height a = ua2_height a"

definition UArray2_size :: "'a UArray2_T \<Rightarrow> int" where
  "UArray2_size a = ua2_size a"

definition UArray2_at :: "'a UArray2_T \<Rightarrow> int \<Rightarrow> int \<Rightarrow> error + int" where
  "UArray2_at a col row =
     (if 0 \<le> col \<and> col < ua2_width a \<and> 0 \<le> row \<and> row < ua2_height a
      then Inr (row * ua2_width a + col)
      else Inl Assert_Failed)"

definition UArray2_load :: "'a UArray2_T \<Rightarrow> int \<Rightarrow> 'a" where
  "UArray2_load a p = ua2_elems a ! nat p"

definition UArray2_store :: "'a UArray2_T \<Rightarrow> int \<Rightarrow> 'a \<Rightarrow> 'a UArray2_T" where
  "UArray2_store a p v = a\<lparr>ua2_elems := (ua2_elems a)[nat p := v]\<rparr>"

type_synonym ('g, 'r, 'cl) applyfun = "int \<Rightarrow> int \<Rightarrow> 'g \<Rightarrow> 'r \<Rightarrow> 'cl \<Rightarrow> error + 'g \<times> 'cl"

definition UArray2_map_row_major ::
  "'a UArray2_T \<Rightarrow> ('a UArray2_T, int, 'cl) applyfun \<Rightarrow> 'cl \<Rightarrow> error + 'a UArray2_T \<times> 'cl" where
  "UArray2_map_row_major a apply cl =
     (let w = ua2_width a; h = ua2_height a in
      for_loop 0 h (\<lambda>row.
        for_loop 0 w (\<lambda>col (a', cl').
          case UArray2_at a' col row of
            Inl e \<Rightarrow> Inl e
          | Inr p \<Rightarrow> apply col row a' p cl')) (a, cl))"

definition UArray2_map_col_major ::
  "'a UArray2_T \<Rightarrow> ('a UArray2_T, int, 'cl) applyfun \<Rightarrow> 'cl \<Rightarrow> error + 'a UArray2_T \<times> 'cl" where
  "UArray2_map_col_major a apply cl =
     (let w = ua2_width a; h = ua2_height a in
      for_loop 0 w (\<lambda>col.
        for_loop 0 h (\<lambda>row (a', cl').
          case UArray2_at a' col row of
            Inl e \<Rightarrow> Inl e
          | Inr p \<Rightarrow> apply col row a' p cl')) (a, cl))"

section \<open>uarray2b.c: the blocked array\<close>

text \<open>
  The struct of \<open>uarray2b.c\<close>; the fields carry the prefix \<open>u2b_\<close> because the method
  suite and the image have fields of the same names.  \<open>blocks\<close> is a UArray2 of UArray
  handles.  A pointer to a cell is the pointer to its block in \<open>blocks\<close> together with the
  pointer to the element inside that block.
\<close>

record 'a UArray2b_T =
  u2b_width :: int
  u2b_height :: int
  u2b_size :: int
  u2b_blocksize :: int
  u2b_blocks :: "'a UArray_T UArray2_T"

type_synonym UArray2b_ref = "int \<times> int"

text \<open>\<open>sizeof(UArray_T)\<close>, the size of a pointer.\<close>

definition sizeof_UArray_T :: int where
  "sizeof_UArray_T = 8"

text \<open>
  \<open>cell_init\<close>: the callback of \<open>blocks_init\<close>.  It stores a fresh buffer of
  \<open>blocksize * blocksize\<close> elements through the element pointer.  The closure is the
  blocked array under construction, of which it reads the block size and the element size.
\<close>

definition cell_init ::
  "('a::zero UArray_T UArray2_T, int, 'a UArray2b_T) applyfun" where
  "cell_init col row uarray2 elem cl =
     (let uarray2b = cl;
          blocksize = u2b_blocksize uarray2b;
          sz = u2b_size uarray2b
      in if INT_MAX < blocksize * blocksize then Inl Signed_Overflow
         else case UArray_new (blocksize * blocksize) sz of
                Inl e \<Rightarrow> Inl e
              | Inr buff \<Rightarrow> Inr (UArray2_store uarray2 elem buff, cl))"

text \<open>
  \<open>blocks_init\<close>.  The two \<open>ceil\<close> calls divide as \<open>double\<close>; the operands are C
  \<open>int\<close>s, far below \<open>2^53\<close>, so the quotient is rounded to the nearest \<open>double\<close> and
  its ceiling is the ceiling of the exact quotient, which is what the model takes.
\<close>

definition blocks_init :: "('a::zero) UArray2b_T \<Rightarrow> error + 'a UArray2b_T" where
  "blocks_init uarray2b =
     (let blocks_h = \<lceil>real_of_int (u2b_height uarray2b) / real_of_int (u2b_blocksize uarray2b)\<rceil>;
          blocks_w = \<lceil>real_of_int (u2b_width uarray2b) / real_of_int (u2b_blocksize uarray2b)\<rceil>
      in case UArray2_new blocks_w blocks_h sizeof_UArray_T of
           Inl e \<Rightarrow> Inl e
         | Inr blocks \<Rightarrow>
             (case UArray2_map_row_major blocks cell_init (uarray2b\<lparr>u2b_blocks := blocks\<rparr>) of
                Inl e \<Rightarrow> Inl e
              | Inr (blocks', cl') \<Rightarrow> Inr (uarray2b\<lparr>u2b_blocks := blocks'\<rparr>)))"

text \<open>
  \<open>UArray2b_init\<close> fills the struct that \<open>NEW\<close> allocated; before \<open>blocks_init\<close> runs
  its \<open>blocks\<close> field is not set, which is the empty array here.
\<close>

definition UArray2b_init :: "int \<Rightarrow> int \<Rightarrow> int \<Rightarrow> int \<Rightarrow> error + ('a::zero) UArray2b_T" where
  "UArray2b_init w h sz blocksize =
     (if \<not> (w > 0 \<and> h > 0 \<and> sz > 0 \<and> blocksize > 0) then Inl Assert_Failed
      else if \<not> (blocksize \<le> w \<and> blocksize \<le> h) then Inl Assert_Failed
      else blocks_init
        \<lparr>u2b_width = w, u2b_height = h, u2b_size = sz, u2b_blocksize = blocksize,
         u2b_blocks = \<lparr>ua2_width = 0, ua2_height = 0, ua2_size = 0, ua2_elems = []\<rparr>\<rparr>)"

definition UArray2b_new :: "int \<Rightarrow> int \<Rightarrow> int \<Rightarrow> int \<Rightarrow> error + ('a::zero) UArray2b_T" where
  "UArray2b_new w h sz blocksize = UArray2b_init w h sz blocksize"

text \<open>
  \<open>UArray2b_new_64K_block\<close>.  \<open>sqrt\<close> is the \<open>double\<close> square root of an integer between
  1 and 64000, compared with a dimension and truncated by the cast; on that range the
  correctly rounded root compares and truncates as the real root does, which is what the
  model takes.  The block size it chooses is \<open>blocksize_64K\<close>; \<open>64000 / size\<close>
  divides by zero when \<open>size\<close> is 0.
\<close>

definition blocksize_64K :: "int \<Rightarrow> int \<Rightarrow> int \<Rightarrow> int" where
  "blocksize_64K w h sz =
     (let num_cells = 64000 sdiv sz in
      if num_cells < 1 then 1
      else if sqrt (real_of_int num_cells) > real_of_int w
            \<or> sqrt (real_of_int num_cells) > real_of_int h
      then (if h < w then h else w)
      else \<lfloor>sqrt (real_of_int num_cells)\<rfloor>)"

definition UArray2b_new_64K_block :: "int \<Rightarrow> int \<Rightarrow> int \<Rightarrow> error + ('a::zero) UArray2b_T" where
  "UArray2b_new_64K_block w h sz =
     (if sz = 0 then Inl Division_By_Zero
      else UArray2b_init w h sz (blocksize_64K w h sz))"

definition UArray2b_width :: "'a UArray2b_T \<Rightarrow> int" where
  "UArray2b_width uarray2b = u2b_width uarray2b"

definition UArray2b_height :: "'a UArray2b_T \<Rightarrow> int" where
  "UArray2b_height uarray2b = u2b_height uarray2b"

definition UArray2b_size :: "'a UArray2b_T \<Rightarrow> int" where
  "UArray2b_size uarray2b = u2b_size uarray2b"

definition UArray2b_blocksize :: "'a UArray2b_T \<Rightarrow> int" where
  "UArray2b_blocksize uarray2b = u2b_blocksize uarray2b"

definition UArray2b_at :: "'a UArray2b_T \<Rightarrow> int \<Rightarrow> int \<Rightarrow> error + UArray2b_ref" where
  "UArray2b_at uarray2b col row =
     (if \<not> (col < u2b_width uarray2b \<and> row < u2b_height uarray2b) then Inl Assert_Failed
      else
        let blocks = u2b_blocks uarray2b;
            blocksize = u2b_blocksize uarray2b
        in case UArray2_at blocks (col sdiv blocksize) (row sdiv blocksize) of
             Inl e \<Rightarrow> Inl e
           | Inr curr_block \<Rightarrow>
               (case UArray_at (UArray2_load blocks curr_block)
                       (blocksize * (row smod blocksize) + col smod blocksize) of
                  Inl e \<Rightarrow> Inl e
                | Inr i \<Rightarrow> Inr (curr_block, i)))"

text \<open>Reading and writing through a cell pointer of a blocked array.\<close>

definition UArray2b_load :: "'a UArray2b_T \<Rightarrow> UArray2b_ref \<Rightarrow> 'a" where
  "UArray2b_load uarray2b p =
     UArray_load (UArray2_load (u2b_blocks uarray2b) (fst p)) (snd p)"

definition UArray2b_store :: "'a UArray2b_T \<Rightarrow> UArray2b_ref \<Rightarrow> 'a \<Rightarrow> 'a UArray2b_T" where
  "UArray2b_store uarray2b p v =
     uarray2b\<lparr>u2b_blocks :=
       UArray2_store (u2b_blocks uarray2b) (fst p)
         (UArray_store (UArray2_load (u2b_blocks uarray2b) (fst p)) (snd p) v)\<rparr>"

definition UArray2b_map ::
  "'a UArray2b_T \<Rightarrow> ('a UArray2b_T, UArray2b_ref, 'cl) applyfun \<Rightarrow> 'cl
     \<Rightarrow> error + 'a UArray2b_T \<times> 'cl" where
  "UArray2b_map uarray2b apply cl =
     (let uarray2 = u2b_blocks uarray2b;
          blocksize = u2b_blocksize uarray2b;
          height = u2b_height uarray2b;
          width = u2b_width uarray2b;
          uarray2_w = UArray2_width uarray2;
          uarray2_h = UArray2_height uarray2
      in for_loop 0 uarray2_h (\<lambda>blk_row.
           let blk_h = (if blk_row = uarray2_h - 1 \<and> height smod blocksize \<noteq> 0
                        then height smod blocksize else blocksize)
           in for_loop 0 uarray2_w (\<lambda>blk_col.
                let blk_w = (if blk_col = uarray2_w - 1 \<and> width smod blocksize \<noteq> 0
                             then width smod blocksize else blocksize)
                in for_loop 0 blk_h (\<lambda>y.
                     for_loop 0 blk_w (\<lambda>x (g, cl').
                       let cell_col = blk_col * blocksize + x;
                           cell_row = blk_row * blocksize + y
                       in case UArray2b_at g cell_col cell_row of
                            Inl e \<Rightarrow> Inl e
                          | Inr elem \<Rightarrow> apply cell_col cell_row g elem cl'))))
         (uarray2b, cl))"

section \<open>a2plain.c: the method suite of the plain array\<close>

text \<open>
  The struct \<open>A2Methods_T\<close> is declared in \<open>a2methods.h\<close>, which is not among the
  sources; its slots are the sixteen that \<open>a2plain.c\<close> initialises, in that order, with
  the prefix \<open>m_\<close>.  A slot that may be absent is an \<open>option\<close>.  \<open>'g\<close> is the array
  handle, \<open>'r\<close> the element pointer and \<open>'cl\<close> the closure, all of them \<open>void *\<close> in C.
  A callback of the reduced family receives the element pointer and the closure; in the
  model it also receives the array, which is the memory that the pointer points into.
  Releasing storage has no effect on a value, so \<open>free\<close> returns nothing.  The static
  functions \<open>size\<close> and \<open>at\<close> of \<open>a2plain.c\<close> are \<open>size_plain\<close> and \<open>at_plain\<close>
  here, the plain names being taken.
\<close>

type_synonym ('g, 'r, 'cl) mapfun =
  "'g \<Rightarrow> ('g, 'r, 'cl) applyfun \<Rightarrow> 'cl \<Rightarrow> error + 'g \<times> 'cl"

type_synonym ('g, 'r, 'cl) smallapplyfun = "'g \<Rightarrow> 'r \<Rightarrow> 'cl \<Rightarrow> error + 'g \<times> 'cl"

type_synonym ('g, 'r, 'cl) smallmapfun =
  "'g \<Rightarrow> ('g, 'r, 'cl) smallapplyfun \<Rightarrow> 'cl \<Rightarrow> error + 'g \<times> 'cl"

record ('g, 'r, 'cl) A2Methods_T =
  m_new :: "int \<Rightarrow> int \<Rightarrow> int \<Rightarrow> error + 'g"
  m_new_with_blocksize :: "int \<Rightarrow> int \<Rightarrow> int \<Rightarrow> int \<Rightarrow> error + 'g"
  m_free :: "'g \<Rightarrow> unit"
  m_width :: "'g \<Rightarrow> int"
  m_height :: "'g \<Rightarrow> int"
  m_size :: "'g \<Rightarrow> int"
  m_blocksize :: "'g \<Rightarrow> int"
  m_at :: "'g \<Rightarrow> int \<Rightarrow> int \<Rightarrow> error + 'r"
  m_map_row_major :: "('g, 'r, 'cl) mapfun option"
  m_map_col_major :: "('g, 'r, 'cl) mapfun option"
  m_map_block_major :: "('g, 'r, 'cl) mapfun option"
  m_map_default :: "('g, 'r, 'cl) mapfun option"
  m_small_map_row_major :: "('g, 'r, 'cl) smallmapfun option"
  m_small_map_col_major :: "('g, 'r, 'cl) smallmapfun option"
  m_small_map_block_major :: "('g, 'r, 'cl) smallmapfun option"
  m_small_map_default :: "('g, 'r, 'cl) smallmapfun option"

definition new :: "int \<Rightarrow> int \<Rightarrow> int \<Rightarrow> error + ('a::zero) UArray2_T" where
  "new w h sz = UArray2_new w h sz"

definition new_with_blocksize :: "int \<Rightarrow> int \<Rightarrow> int \<Rightarrow> int \<Rightarrow> error + ('a::zero) UArray2_T" where
  "new_with_blocksize w h sz bs = UArray2_new w h sz"

definition a2free :: "'a UArray2_T \<Rightarrow> unit" where
  "a2free array2p = ()"

definition width :: "'a UArray2_T \<Rightarrow> int" where
  "width array2 = UArray2_width array2"

definition height :: "'a UArray2_T \<Rightarrow> int" where
  "height array2 = UArray2_height array2"

definition size_plain :: "'a UArray2_T \<Rightarrow> int" where
  "size_plain array2 = UArray2_size array2"

definition blocksize :: "'a UArray2_T \<Rightarrow> int" where
  "blocksize array2 = 1"

definition at_plain :: "'a UArray2_T \<Rightarrow> int \<Rightarrow> int \<Rightarrow> error + int" where
  "at_plain array2 i j = UArray2_at array2 i j"

definition map_col_major :: "('a UArray2_T, int, 'cl) mapfun" where
  "map_col_major array2 apply cl = UArray2_map_col_major array2 apply cl"

definition map_row_major :: "('a UArray2_T, int, 'cl) mapfun" where
  "map_row_major array2 apply cl = UArray2_map_row_major array2 apply cl"

text \<open>\<open>struct small_closure\<close>; its fields \<open>apply\<close> and \<open>cl\<close> carry the prefix \<open>sc_\<close>.\<close>

record ('g, 'r, 'cl) small_closure =
  sc_apply :: "('g, 'r, 'cl) smallapplyfun"
  sc_cl :: 'cl

definition apply_small ::
  "('a UArray2_T, int, ('a UArray2_T, int, 'cl) small_closure) applyfun" where
  "apply_small i j array2 elem vcl =
     (let cl = vcl
      in case sc_apply cl array2 elem (sc_cl cl) of
           Inl e \<Rightarrow> Inl e
         | Inr (array2', c') \<Rightarrow> Inr (array2', cl\<lparr>sc_cl := c'\<rparr>))"

definition small_map_col_major :: "('a UArray2_T, int, 'cl) smallmapfun" where
  "small_map_col_major a2 apply cl =
     (let mycl = \<lparr>sc_apply = apply, sc_cl = cl\<rparr>
      in case UArray2_map_col_major a2 apply_small mycl of
           Inl e \<Rightarrow> Inl e
         | Inr (a2', mycl') \<Rightarrow> Inr (a2', sc_cl mycl'))"

definition small_map_row_major :: "('a UArray2_T, int, 'cl) smallmapfun" where
  "small_map_row_major a2 apply cl =
     (let mycl = \<lparr>sc_apply = apply, sc_cl = cl\<rparr>
      in case UArray2_map_row_major a2 apply_small mycl of
           Inl e \<Rightarrow> Inl e
         | Inr (a2', mycl') \<Rightarrow> Inr (a2', sc_cl mycl'))"

definition uarray2_methods_plain_struct :: "(('a::zero) UArray2_T, int, 'cl) A2Methods_T" where
  "uarray2_methods_plain_struct =
     \<lparr>m_new = new,
      m_new_with_blocksize = new_with_blocksize,
      m_free = a2free,
      m_width = width,
      m_height = height,
      m_size = size_plain,
      m_blocksize = blocksize,
      m_at = at_plain,
      m_map_row_major = Some map_row_major,
      m_map_col_major = Some map_col_major,
      m_map_block_major = None,
      m_map_default = Some map_row_major,
      m_small_map_row_major = Some small_map_row_major,
      m_small_map_col_major = Some small_map_col_major,
      m_small_map_block_major = None,
      m_small_map_default = Some small_map_row_major\<rparr>"

text \<open>The exported pointer to the struct; a pointer to a suite is an \<open>option\<close>.\<close>

definition uarray2_methods_plain :: "(('a::zero) UArray2_T, int, 'cl) A2Methods_T option" where
  "uarray2_methods_plain = Some uarray2_methods_plain_struct"

section \<open>ppmtrans.c: the transform engine\<close>

definition ROTATE :: int where "ROTATE = 0"

definition FLIP :: int where "FLIP = 1"

definition TRANSPOSE :: int where "TRANSPOSE = 2"

definition HORIZ :: int where "HORIZ = 1"

definition VERT :: int where "VERT = 2"

text \<open>
  \<open>struct result\<close>, the closure of the three callbacks.  Its field \<open>methods\<close> cannot be
  a field here, because the type of a suite mentions the type of the closure that its
  traversals thread; the suite that \<open>result_init\<close> receives is handed to the callbacks as
  their first argument instead.
\<close>

record 'g result =
  destination_map :: 'g
  magnitude :: int

text \<open>
  \<open>Pnm_ppm\<close> is declared in \<open>pnm.h\<close>, which is not among the sources; these are the
  fields that \<open>ppmtrans.c\<close> reads and writes, with the prefix \<open>ppm_\<close>.  \<open>sizeof(struct
  Pnm_rgb)\<close> is the size of three \<open>unsigned\<close> samples.
\<close>

record 'g Pnm_ppm =
  ppm_width :: int
  ppm_height :: int
  ppm_denominator :: int
  ppm_pixels :: 'g

definition sizeof_Pnm_rgb :: int where
  "sizeof_Pnm_rgb = 12"

text \<open>
  The callbacks read \<open>*source_pixel\<close> and write \<open>*dest_pixel\<close>.  What a pointer of a suite
  points into depends on the storage, so the two accesses come with the suite: \<open>mem_load\<close>
  reads through an element pointer, \<open>mem_store\<close> writes through it.
\<close>

record ('g, 'r, 'a) A2Memory =
  mem_load :: "'g \<Rightarrow> 'r \<Rightarrow> 'a"
  mem_store :: "'g \<Rightarrow> 'r \<Rightarrow> 'a \<Rightarrow> 'g"

definition UArray2_memory :: "('a UArray2_T, int, 'a) A2Memory" where
  "UArray2_memory = \<lparr>mem_load = UArray2_load, mem_store = UArray2_store\<rparr>"

definition UArray2b_memory :: "('a UArray2b_T, UArray2b_ref, 'a) A2Memory" where
  "UArray2b_memory = \<lparr>mem_load = UArray2b_load, mem_store = UArray2b_store\<rparr>"

text \<open>
  The last statement of each callback, \<open>*dest_pixel = *source_pixel\<close>.  \<open>dest_pixel\<close> is
  declared without a value: \<open>None\<close> until a branch assigns it the result of \<open>at\<close>, which
  itself may have failed.
\<close>

definition assign_pixel ::
  "('g, 'r, 'a) A2Memory \<Rightarrow> 'g \<Rightarrow> 'r \<Rightarrow> 'g result \<Rightarrow> (error + 'r) option
     \<Rightarrow> error + 'g \<times> 'g result" where
  "assign_pixel mem source source_pixel info dest_pixel =
     (case dest_pixel of
        None \<Rightarrow> Inl Uninitialized_Pointer
      | Some (Inl e) \<Rightarrow> Inl e
      | Some (Inr d) \<Rightarrow>
          Inr (source,
               info\<lparr>destination_map :=
                 mem_store mem (destination_map info) d (mem_load mem source source_pixel)\<rparr>))"

definition rotate_map ::
  "('g, 'r, 'g result) A2Methods_T \<Rightarrow> ('g, 'r, 'a) A2Memory \<Rightarrow> ('g, 'r, 'g result) applyfun" where
  "rotate_map methods mem col row source ptr cl =
     (let info = cl;
          rotation = magnitude info;
          destination = destination_map info;
          height = m_height methods source;
          width = m_width methods source;
          source_pixel = ptr;
          dest_pixel =
            (if rotation = 0 then Some (m_at methods destination col row)
             else if rotation = 90 then Some (m_at methods destination (height - row - 1) col)
             else if rotation = 180
               then Some (m_at methods destination (width - col - 1) (height - row - 1))
             else if rotation = 270 then Some (m_at methods destination row (width - col - 1))
             else None)
      in assign_pixel mem source source_pixel info dest_pixel)"

definition flip_map ::
  "('g, 'r, 'g result) A2Methods_T \<Rightarrow> ('g, 'r, 'a) A2Memory \<Rightarrow> ('g, 'r, 'g result) applyfun" where
  "flip_map methods mem col row source ptr cl =
     (let info = cl;
          flip_type = magnitude info;
          destination = destination_map info;
          height = m_height methods source;
          width = m_width methods source;
          source_pixel = ptr;
          dest_pixel =
            (if flip_type = HORIZ then Some (m_at methods destination (width - col - 1) row)
             else if flip_type = VERT then Some (m_at methods destination col (height - row - 1))
             else None)
      in assign_pixel mem source source_pixel info dest_pixel)"

definition transpose_map ::
  "('g, 'r, 'g result) A2Methods_T \<Rightarrow> ('g, 'r, 'a) A2Memory \<Rightarrow> ('g, 'r, 'g result) applyfun" where
  "transpose_map methods mem col row source ptr cl =
     (let info = cl;
          destination = destination_map info;
          source_pixel = ptr;
          dest_pixel = Some (m_at methods destination row col)
      in assign_pixel mem source source_pixel info dest_pixel)"

text \<open>
  \<open>create_image\<close> swaps the dimensions recorded in the image and returns the new array;
  the model returns both.
\<close>

definition create_image ::
  "'g Pnm_ppm \<Rightarrow> ('g, 'r, 'cl) A2Methods_T \<Rightarrow> int \<Rightarrow> int \<Rightarrow> error + 'g Pnm_ppm \<times> 'g" where
  "create_image ppm methods type mag =
     (let width = ppm_width ppm;
          height = ppm_height ppm;
          sz = sizeof_Pnm_rgb
      in if (type = ROTATE \<and> (mag = 90 \<or> mag = 270)) \<or> type = TRANSPOSE
         then (case m_new methods height width sz of
                 Inl e \<Rightarrow> Inl e
               | Inr img \<Rightarrow> Inr (ppm\<lparr>ppm_width := height, ppm_height := width\<rparr>, img))
         else (case m_new methods width height sz of
                 Inl e \<Rightarrow> Inl e
               | Inr img \<Rightarrow> Inr (ppm, img)))"

definition result_init :: "('g, 'r, 'cl) A2Methods_T \<Rightarrow> int \<Rightarrow> 'g \<Rightarrow> 'g result" where
  "result_init methods mag img = \<lparr>destination_map = img, magnitude = mag\<rparr>"

text \<open>\<open>transform_init\<close>: a pointer to a callback is an \<open>option\<close>, \<open>NULL\<close> being \<open>None\<close>.\<close>

definition transform_init ::
  "('g, 'r, 'g result) A2Methods_T \<Rightarrow> ('g, 'r, 'a) A2Memory
     \<Rightarrow> ('g, 'r, 'g result) applyfun option \<Rightarrow> int \<Rightarrow> ('g, 'r, 'g result) applyfun option" where
  "transform_init methods mem apply transform_type =
     (if transform_type = ROTATE then Some (rotate_map methods mem)
      else if transform_type = FLIP then Some (flip_map methods mem)
      else if transform_type = TRANSPOSE then Some (transpose_map methods mem)
      else apply)"

text \<open>
  \<open>transform_image\<close>.  The timer around the traversal reads the CPU clock and does not
  touch the image; the model leaves the measurement out.  \<open>map\<close> and \<open>apply\<close> are
  pointers to functions: a call through a null one stops the program.
\<close>

definition transform_image ::
  "'g Pnm_ppm \<Rightarrow> ('g, 'r, 'g result) applyfun option \<Rightarrow> ('g, 'r, 'g result) mapfun option
     \<Rightarrow> 'g result \<Rightarrow> error + 'g Pnm_ppm \<times> 'g result" where
  "transform_image ppm apply mapf dest_info =
     (case mapf of
        None \<Rightarrow> Inl Null_Function
      | Some m \<Rightarrow>
          (case m (ppm_pixels ppm)
                  (case apply of
                     None \<Rightarrow> (\<lambda>col row source ptr cl. Inl Null_Function)
                   | Some f \<Rightarrow> f)
                  dest_info of
             Inl e \<Rightarrow> Inl e
           | Inr (pixels, dest_info') \<Rightarrow> Inr (ppm\<lparr>ppm_pixels := pixels\<rparr>, dest_info')))"

definition reassign :: "'g Pnm_ppm \<Rightarrow> 'g \<Rightarrow> ('g, 'r, 'cl) A2Methods_T \<Rightarrow> 'g Pnm_ppm" where
  "reassign ppm destination methods =
     (let buff = ppm_pixels ppm;
          ppm' = ppm\<lparr>ppm_pixels := destination\<rparr>;
          u = m_free methods buff
      in ppm')"

definition transform ::
  "'g Pnm_ppm \<Rightarrow> ('g, 'r, 'g result) A2Methods_T \<Rightarrow> ('g, 'r, 'a) A2Memory
     \<Rightarrow> ('g, 'r, 'g result) mapfun option \<Rightarrow> int \<Rightarrow> int \<Rightarrow> error + 'g Pnm_ppm" where
  "transform ppm methods mem mapf transform_type mag =
     (case create_image ppm methods transform_type mag of
        Inl e \<Rightarrow> Inl e
      | Inr (ppm1, img) \<Rightarrow>
          (let dest_info = result_init methods mag img;
               apply = transform_init methods mem None transform_type
           in case transform_image ppm1 apply mapf dest_info of
                Inl e \<Rightarrow> Inl e
              | Inr (ppm2, dest_info') \<Rightarrow>
                  Inr (reassign ppm2 (destination_map dest_info') methods)))"

subsection \<open>The command line\<close>

text \<open>
  The local variables of \<open>main\<close> that the argument loop sets, with the prefix \<open>v_\<close>.
\<close>

record ('g, 'r, 'cl) main_vars =
  v_methods :: "('g, 'r, 'cl) A2Methods_T"
  v_map :: "('g, 'r, 'cl) mapfun option"
  v_transform_type :: int
  v_magnitude :: int
  v_time_file_name :: "string option"
  v_filename :: "string option"

text \<open>
  \<open>usage\<close> prints the usage line and exits; \<open>Exit_Failure\<close> carries everything written to
  \<open>stderr\<close>, so \<open>usage\<close> takes what the caller printed before.
\<close>

definition usage :: "string \<Rightarrow> string \<Rightarrow> error + 'x" where
  "usage printed progname =
     Inl (Exit_Failure (printed @ ''Usage: '' @ progname
       @ '' [-rotate <angle>] [-flip <direction>] [-transpose] [{row,col,block}-major] ''
       @ ''[-time <timing_file>] [filename]'' @ [CHR 0x0A]))"

definition SET_METHODS ::
  "('g, 'r, 'cl) A2Methods_T option
     \<Rightarrow> (('g, 'r, 'cl) A2Methods_T \<Rightarrow> ('g, 'r, 'cl) mapfun option)
     \<Rightarrow> string \<Rightarrow> string \<Rightarrow> ('g, 'r, 'cl) main_vars \<Rightarrow> error + ('g, 'r, 'cl) main_vars" where
  "SET_METHODS METHODS MAP WHAT argv0 vars =
     (case METHODS of
        None \<Rightarrow> Inl Assert_Failed
      | Some methods \<Rightarrow>
          (case MAP methods of
             None \<Rightarrow>
               Inl (Exit_Failure (argv0 @ '' does not support '' @ WHAT @ ''mapping'' @ [CHR 0x0A]))
           | Some mapf \<Rightarrow> Inr (vars\<lparr>v_methods := methods, v_map := Some mapf\<rparr>)))"

text \<open>
  The argument loop of \<open>main\<close>, over \<open>argv[1..]\<close>.  \<open>uarray2_methods_blocked\<close> comes from
  \<open>a2blocked.c\<close> and \<open>strtol\<close> from the C library, neither among the sources: both are
  parameters.  \<open>strtol\<close> gives the value as it is stored in the \<open>int\<close> \<open>magnitude\<close> and
  the text left at \<open>endptr\<close>.
\<close>

fun main_loop ::
  "(('a::zero) UArray2_T, int, 'cl) A2Methods_T option \<Rightarrow> (string \<Rightarrow> int \<times> string) \<Rightarrow> string
     \<Rightarrow> string list \<Rightarrow> ('a UArray2_T, int, 'cl) main_vars
     \<Rightarrow> error + ('a UArray2_T, int, 'cl) main_vars" where
  "main_loop uarray2_methods_blocked strtol argv0 [] vars = Inr vars"
| "main_loop uarray2_methods_blocked strtol argv0 (arg # rest) vars =
     (if arg = ''-row-major'' then
        (case SET_METHODS uarray2_methods_plain m_map_row_major ''row-major'' argv0 vars of
           Inl e \<Rightarrow> Inl e
         | Inr vars' \<Rightarrow> main_loop uarray2_methods_blocked strtol argv0 rest vars')
      else if arg = ''-col-major'' then
        (case SET_METHODS uarray2_methods_plain m_map_col_major ''column-major'' argv0 vars of
           Inl e \<Rightarrow> Inl e
         | Inr vars' \<Rightarrow> main_loop uarray2_methods_blocked strtol argv0 rest vars')
      else if arg = ''-block-major'' then
        (case SET_METHODS uarray2_methods_blocked m_map_block_major ''block-major'' argv0 vars of
           Inl e \<Rightarrow> Inl e
         | Inr vars' \<Rightarrow> main_loop uarray2_methods_blocked strtol argv0 rest vars')
      else if arg = ''-rotate'' then
        (case rest of
           [] \<Rightarrow> usage [] argv0
         | number # rest' \<Rightarrow>
             (case strtol number of
                (mag, endptr) \<Rightarrow>
                  if \<not> (mag = 0 \<or> mag = 90 \<or> mag = 180 \<or> mag = 270)
                  then usage (''Rotation must be 0, 90, 180 or 270'' @ [CHR 0x0A]) argv0
                  else if \<not> (endptr = []) then usage [] argv0
                  else main_loop uarray2_methods_blocked strtol argv0 rest'
                         (vars\<lparr>v_magnitude := mag, v_transform_type := ROTATE\<rparr>)))
      else if arg = ''-flip'' then
        (case rest of
           [] \<Rightarrow> usage [] argv0
         | endptr # rest' \<Rightarrow>
             if endptr = ''horizontal''
             then main_loop uarray2_methods_blocked strtol argv0 rest'
                    (vars\<lparr>v_magnitude := HORIZ, v_transform_type := FLIP\<rparr>)
             else if endptr = ''vertical''
             then main_loop uarray2_methods_blocked strtol argv0 rest'
                    (vars\<lparr>v_magnitude := VERT, v_transform_type := FLIP\<rparr>)
             else usage (''Flip must be horizontal or vertical'' @ [CHR 0x0A]) argv0)
      else if arg = ''-transpose'' then
        main_loop uarray2_methods_blocked strtol argv0 rest (vars\<lparr>v_transform_type := TRANSPOSE\<rparr>)
      else if arg = ''-time'' then
        (case rest of
           [] \<Rightarrow> usage [] argv0
         | name # rest' \<Rightarrow>
             main_loop uarray2_methods_blocked strtol argv0 rest'
               (vars\<lparr>v_time_file_name := Some name\<rparr>))
      else if (case arg of [] \<Rightarrow> False | c # cs \<Rightarrow> c = CHR ''-'') then
        usage (argv0 @ '': unknown option '' @ [CHR 0x27] @ arg @ [CHR 0x27, CHR 0x0A]) argv0
      else if rest \<noteq> [] then
        usage (''Too many arguments'' @ [CHR 0x0A]) argv0
      else
        main_loop uarray2_methods_blocked strtol argv0 rest (vars\<lparr>v_filename := Some arg\<rparr>))"

text \<open>
  \<open>main\<close>: \<open>argv[0]\<close> and the remaining arguments.  \<open>process_file\<close> opens the file and
  calls \<open>Pnm_ppmread\<close>; the file system and the reader are outside the sources, so reading
  the image of the file name chosen (or of the standard input) with the suite chosen is the
  parameter \<open>Pnm_ppmread\<close>, which may fail.  The program writes the transformed image to
  the standard output: that image is the result.  The timing file repeats the measurement
  that the model leaves out.
\<close>

definition process_file ::
  "(string option \<Rightarrow> ('g, 'r, 'cl) A2Methods_T \<Rightarrow> error + 'g Pnm_ppm) \<Rightarrow> string option
     \<Rightarrow> ('g, 'r, 'cl) A2Methods_T \<Rightarrow> error + 'g Pnm_ppm" where
  "process_file Pnm_ppmread filename methods = Pnm_ppmread filename methods"

definition main ::
  "(('a::zero) UArray2_T, int, 'a UArray2_T result) A2Methods_T option
     \<Rightarrow> (string \<Rightarrow> int \<times> string)
     \<Rightarrow> (string option \<Rightarrow> ('a UArray2_T, int, 'a UArray2_T result) A2Methods_T
           \<Rightarrow> error + 'a UArray2_T Pnm_ppm)
     \<Rightarrow> string \<Rightarrow> string list \<Rightarrow> error + 'a UArray2_T Pnm_ppm" where
  "main uarray2_methods_blocked strtol Pnm_ppmread argv0 args =
     (case uarray2_methods_plain of
        None \<Rightarrow> Inl Assert_Failed
      | Some methods \<Rightarrow>
          (case m_map_default methods of
             None \<Rightarrow> Inl Assert_Failed
           | Some mapf \<Rightarrow>
               (case main_loop uarray2_methods_blocked strtol argv0 args
                       \<lparr>v_methods = methods, v_map = Some mapf, v_transform_type = ROTATE,
                        v_magnitude = 0, v_time_file_name = None, v_filename = None\<rparr> of
                  Inl e \<Rightarrow> Inl e
                | Inr vars \<Rightarrow>
                    (case process_file Pnm_ppmread (v_filename vars) (v_methods vars) of
                       Inl e \<Rightarrow> Inl e
                     | Inr ppm \<Rightarrow>
                         transform ppm (v_methods vars) UArray2_memory (v_map vars)
                           (v_transform_type vars) (v_magnitude vars)))))"

section \<open>Vocabulary of the statements\<close>

text \<open>
  The orders in which the spec says a grid is visited, as lists of \<open>(col, row)\<close>: row-major
  (row by row, the columns of a row from left to right) and column-major.
\<close>

definition row_major_order :: "int \<Rightarrow> int \<Rightarrow> (int \<times> int) list" where
  "row_major_order w h = concat (map (\<lambda>row. map (\<lambda>col. (col, row)) [0..w - 1]) [0..h - 1])"

definition col_major_order :: "int \<Rightarrow> int \<Rightarrow> (int \<times> int) list" where
  "col_major_order w h = concat (map (\<lambda>col. map (\<lambda>row. (col, row)) [0..h - 1]) [0..w - 1])"

text \<open>
  One visit of a traversal: the element pointer of the coordinate is taken with the
  accessor, then the callback is invoked on the coordinate, the array, the pointer and the
  closure.
\<close>

definition visit :: "('g \<Rightarrow> int \<Rightarrow> int \<Rightarrow> error + 'r) \<Rightarrow> ('g, 'r, 'cl) applyfun
    \<Rightarrow> int \<times> int \<Rightarrow> 'g \<times> 'cl \<Rightarrow> error + 'g \<times> 'cl" where
  "visit at_fn apply = (\<lambda>(col, row) (g, cl).
      case at_fn g col row of Inl e \<Rightarrow> Inl e | Inr p \<Rightarrow> apply col row g p cl)"

text \<open>
  The number of blocks along a dimension, as \<open>blocks_init\<close> computes it, and the block
  grid that \<open>blocks_init\<close> leaves behind: every block a zeroed buffer of
  \<open>blocksize * blocksize\<close> elements.
\<close>

definition block_count :: "int \<Rightarrow> int \<Rightarrow> int" where
  "block_count n bs = \<lceil>real_of_int n / real_of_int bs\<rceil>"

definition init_blocks :: "int \<Rightarrow> int \<Rightarrow> int \<Rightarrow> ('a::zero) UArray_T UArray2_T" where
  "init_blocks w h bs =
     \<lparr>ua2_width = block_count w bs, ua2_height = block_count h bs, ua2_size = sizeof_UArray_T,
      ua2_elems = replicate (nat (block_count w bs * block_count h bs))
                    (UArray (replicate (nat (bs * bs)) 0))\<rparr>"

text \<open>
  A plain array is well formed when its dimensions are positive and its buffer holds
  \<open>width * height\<close> elements; \<open>UArray2_new\<close> returns such arrays and a store keeps them so.
\<close>

definition UArray2_wf :: "'a UArray2_T \<Rightarrow> bool" where
  "UArray2_wf a \<longleftrightarrow>
     0 < ua2_width a \<and> 0 < ua2_height a \<and>
     length (ua2_elems a) = nat (ua2_width a * ua2_height a)"

text \<open>
  The values of the variables of \<open>main\<close> when the argument loop starts, and what the loop
  maintains about the transform and its magnitude.
\<close>

definition main_vars0 :: "(('a::zero) UArray2_T, int, 'cl) main_vars" where
  "main_vars0 =
     \<lparr>v_methods = uarray2_methods_plain_struct, v_map = Some map_row_major,
      v_transform_type = ROTATE, v_magnitude = 0, v_time_file_name = None, v_filename = None\<rparr>"

definition magnitude_ok :: "int \<Rightarrow> int \<Rightarrow> bool" where
  "magnitude_ok transform_type mag \<longleftrightarrow>
     (transform_type = ROTATE \<and> (mag = 0 \<or> mag = 90 \<or> mag = 180 \<or> mag = 270))
   \<or> (transform_type = FLIP \<and> (mag = HORIZ \<or> mag = VERT))
   \<or> transform_type = TRANSPOSE"

text \<open>
  The contract of a method suite, as far as the transform engine relies on it.  A
  coordinate is in bounds when it lies in \<open>[0, width) \<times> [0, height)\<close>; reading a cell takes
  its element pointer with \<open>at\<close> and loads through it.  A suite with its memory is lawful,
  for the arrays that satisfy \<open>ok\<close>, when \<open>new\<close> returns an \<open>ok\<close> array of the dimensions
  asked for, an \<open>ok\<close> array has positive dimensions, \<open>at\<close> succeeds in bounds, and a store
  through the pointer of a cell keeps the array \<open>ok\<close> and its dimensions, is read back at
  that cell and leaves every other cell as it was.  A traversal is lawful when it visits
  the coordinates of some list that holds exactly the coordinates in bounds, taking the
  element pointer of each with \<open>at\<close>.
\<close>

definition in_bounds :: "('g, 'r, 'cl) A2Methods_T \<Rightarrow> 'g \<Rightarrow> int \<Rightarrow> int \<Rightarrow> bool" where
  "in_bounds M g col row \<longleftrightarrow> 0 \<le> col \<and> col < m_width M g \<and> 0 \<le> row \<and> row < m_height M g"

definition A2_read ::
  "('g, 'r, 'cl) A2Methods_T \<Rightarrow> ('g, 'r, 'a) A2Memory \<Rightarrow> 'g \<Rightarrow> int \<Rightarrow> int \<Rightarrow> error + 'a" where
  "A2_read M mem g col row =
     (case m_at M g col row of Inl e \<Rightarrow> Inl e | Inr p \<Rightarrow> Inr (mem_load mem g p))"

definition A2_lawful ::
  "('g, 'r, 'cl) A2Methods_T \<Rightarrow> ('g, 'r, 'a) A2Memory \<Rightarrow> ('g \<Rightarrow> bool) \<Rightarrow> bool" where
  "A2_lawful M mem ok \<longleftrightarrow>
     (\<forall>w h sz. 0 < w \<and> 0 < h \<and> 0 < sz \<longrightarrow>
        (\<exists>g. m_new M w h sz = Inr g \<and> ok g \<and> m_width M g = w \<and> m_height M g = h))
   \<and> (\<forall>g. ok g \<longrightarrow> 0 < m_width M g \<and> 0 < m_height M g)
   \<and> (\<forall>g col row. ok g \<and> in_bounds M g col row \<longrightarrow> (\<exists>p. m_at M g col row = Inr p))
   \<and> (\<forall>g col row p v. ok g \<and> in_bounds M g col row \<and> m_at M g col row = Inr p \<longrightarrow>
        ok (mem_store mem g p v)
      \<and> m_width M (mem_store mem g p v) = m_width M g
      \<and> m_height M (mem_store mem g p v) = m_height M g
      \<and> (\<forall>c r. in_bounds M g c r \<longrightarrow>
            A2_read M mem (mem_store mem g p v) c r =
              (if c = col \<and> r = row then Inr v else A2_read M mem g c r)))"

definition map_lawful ::
  "('g, 'r, 'cl) A2Methods_T \<Rightarrow> ('g \<Rightarrow> bool) \<Rightarrow> ('g, 'r, 'cl) mapfun \<Rightarrow> bool" where
  "map_lawful M ok mapf \<longleftrightarrow>
     (\<forall>g. ok g \<longrightarrow>
        (\<exists>order. set order = {0..<m_width M g} \<times> {0..<m_height M g} \<and>
           (\<forall>f cl. mapf g f cl = foldM (visit (m_at M) f) order (g, cl))))"

text \<open>
  The outcome of a callback copies the source element to the destination cell \<open>(x, y)\<close>
  when it returns the source as it was and the closure with a destination array that is
  still \<open>ok\<close>, has the dimensions it had, holds the element read through the source pointer
  at \<open>(x, y)\<close> and holds at every other cell what it held before.
\<close>

definition copies_to ::
  "('g, 'r, 'cl) A2Methods_T \<Rightarrow> ('g, 'r, 'a) A2Memory \<Rightarrow> ('g \<Rightarrow> bool) \<Rightarrow> error + 'g \<times> 'g result
     \<Rightarrow> 'g \<Rightarrow> 'r \<Rightarrow> 'g result \<Rightarrow> int \<Rightarrow> int \<Rightarrow> bool" where
  "copies_to M mem ok outcome src ptr cl x y \<longleftrightarrow>
     (\<exists>dst'. outcome = Inr (src, cl\<lparr>destination_map := dst'\<rparr>)
        \<and> ok dst'
        \<and> m_width M dst' = m_width M (destination_map cl)
        \<and> m_height M dst' = m_height M (destination_map cl)
        \<and> A2_read M mem dst' x y = Inr (mem_load mem src ptr)
        \<and> (\<forall>c r. in_bounds M (destination_map cl) c r \<and> (c, r) \<noteq> (x, y) \<longrightarrow>
              A2_read M mem dst' c r = A2_read M mem (destination_map cl) c r))"

text \<open>
  The coordinate table of the spec: where the element at \<open>(col, row)\<close> of a source of width
  \<open>W\<close> and height \<open>H\<close> goes, and which transforms swap the dimensions.
\<close>

definition dest_coord :: "int \<Rightarrow> int \<Rightarrow> int \<Rightarrow> int \<Rightarrow> int \<Rightarrow> int \<Rightarrow> int \<times> int" where
  "dest_coord transform_type mag W H col row =
     (if transform_type = ROTATE \<and> mag = 0 then (col, row)
      else if transform_type = ROTATE \<and> mag = 90 then (H - row - 1, col)
      else if transform_type = ROTATE \<and> mag = 180 then (W - col - 1, H - row - 1)
      else if transform_type = ROTATE \<and> mag = 270 then (row, W - col - 1)
      else if transform_type = FLIP \<and> mag = HORIZ then (W - col - 1, row)
      else if transform_type = FLIP \<and> mag = VERT then (col, H - row - 1)
      else (row, col))"

definition swaps_dimensions :: "int \<Rightarrow> int \<Rightarrow> bool" where
  "swaps_dimensions transform_type mag \<longleftrightarrow>
     (transform_type = ROTATE \<and> (mag = 90 \<or> mag = 270)) \<or> transform_type = TRANSPOSE"

text \<open>
  The block-major order in the words of the spec.  The last block along a dimension of
  \<open>n\<close> cells is \<open>n mod blocksize\<close> cells long when that is not zero, every other block
  \<open>blocksize\<close> cells; the cells of block \<open>(bc, br)\<close> are visited in row-major order within
  its extent; the blocks are visited in row-major block order.
\<close>

definition block_extent :: "int \<Rightarrow> int \<Rightarrow> int \<Rightarrow> int" where
  "block_extent n bs b = (if b = block_count n bs - 1 \<and> n mod bs \<noteq> 0 then n mod bs else bs)"

definition block_cells :: "int \<Rightarrow> int \<Rightarrow> int \<Rightarrow> int \<Rightarrow> int \<Rightarrow> (int \<times> int) list" where
  "block_cells bs ew eh bc br =
     concat (map (\<lambda>y. map (\<lambda>x. (bc * bs + x, br * bs + y)) [0..ew - 1]) [0..eh - 1])"

definition block_major_order :: "int \<Rightarrow> int \<Rightarrow> int \<Rightarrow> (int \<times> int) list" where
  "block_major_order w h bs =
     concat (map (\<lambda>(bc, br). block_cells bs (block_extent w bs bc) (block_extent h bs br) bc br)
               (row_major_order (block_count w bs) (block_count h bs)))"

text \<open>
  The invariant of the struct that \<open>UArray2b_init\<close> establishes and a store keeps: the
  dimensions and the block size pass the two assertions, the square of the block size is
  an \<open>int\<close>, the block grid has
  \<open>ceil(width / blocksize)\<close> by \<open>ceil(height / blocksize)\<close> blocks, and every block is a
  buffer of \<open>blocksize * blocksize\<close> elements.  \<open>UArray2b_cell\<close> is the pointer that the
  spec gives for a coordinate: the block \<open>(col / blocksize, row / blocksize)\<close> of the block
  grid and the offset \<open>blocksize * (row mod blocksize) + col mod blocksize\<close> inside it.
\<close>

definition UArray2b_wf :: "'a UArray2b_T \<Rightarrow> bool" where
  "UArray2b_wf g \<longleftrightarrow>
     0 < u2b_width g \<and> 0 < u2b_height g \<and> 0 < u2b_blocksize g
   \<and> u2b_blocksize g \<le> u2b_width g \<and> u2b_blocksize g \<le> u2b_height g
   \<and> u2b_blocksize g * u2b_blocksize g \<le> INT_MAX
   \<and> ua2_width (u2b_blocks g) = block_count (u2b_width g) (u2b_blocksize g)
   \<and> ua2_height (u2b_blocks g) = block_count (u2b_height g) (u2b_blocksize g)
   \<and> UArray2_wf (u2b_blocks g)
   \<and> (\<forall>b \<in> set (ua2_elems (u2b_blocks g)).
        UArray_length b = u2b_blocksize g * u2b_blocksize g)"

definition UArray2b_cell :: "'a UArray2b_T \<Rightarrow> int \<Rightarrow> int \<Rightarrow> UArray2b_ref" where
  "UArray2b_cell g col row =
     ((row div u2b_blocksize g) * ua2_width (u2b_blocks g) + col div u2b_blocksize g,
      u2b_blocksize g * (row mod u2b_blocksize g) + col mod u2b_blocksize g)"


section \<open>Loops as folds\<close>

lemma for_loop_foldM: "for_loop i n body s = foldM body [i..n - 1] s"
proof (induction i n body s rule: for_loop.induct)
  case (1 i n body s)
  show ?case
  proof (cases "i < n")
    case True
    then have "[i..n - 1] = i # [i + 1..n - 1]"
      by (simp add: upto_rec1)
    with True 1 show ?thesis
      by (subst for_loop.simps) (simp split: sum.splits)
  next
    case False
    then show ?thesis
      by (subst for_loop.simps) simp
  qed
qed

lemma foldM_append:
  "foldM f (xs @ ys) s = (case foldM f xs s of Inl e \<Rightarrow> Inl e | Inr s' \<Rightarrow> foldM f ys s')"
  by (induction xs arbitrary: s) (auto split: sum.splits)

lemma foldM_map: "foldM f (map k xs) s = foldM (\<lambda>x. f (k x)) xs s"
  by (induction xs arbitrary: s) (auto split: sum.splits)

lemma foldM_nested:
  assumes "\<And>x y. g (k x y) = f x y"
  shows "foldM (\<lambda>x. foldM (f x) (ys x)) xs s = foldM g (concat (map (\<lambda>x. map (k x) (ys x)) xs)) s"
proof (induction xs arbitrary: s)
  case Nil
  show ?case by simp
next
  case (Cons x xs)
  have "foldM g (map (k x) (ys x)) s = foldM (f x) (ys x) s"
    by (simp add: foldM_map assms)
  then show ?case
    by (simp add: foldM_append Cons.IH split: sum.splits)
qed

lemma foldM_cong:
  assumes "\<And>x s. x \<in> set xs \<Longrightarrow> f x s = g x s"
  shows "foldM f xs s = foldM g xs s"
  using assms by (induction xs arbitrary: s) (auto split: sum.splits)

lemma foldM_invariant:
  assumes "P pre s"
    and "\<And>seen x t. P seen t \<Longrightarrow> x \<in> set xs \<Longrightarrow> \<exists>t'. f x t = Inr t' \<and> P (seen @ [x]) t'"
  shows "\<exists>s'. foldM f xs s = Inr s' \<and> P (pre @ xs) s'"
  using assms
proof (induction xs arbitrary: pre s)
  case Nil
  then show ?case by simp
next
  case (Cons x xs)
  from Cons.prems obtain t where t: "f x s = Inr t" "P (pre @ [x]) t"
    by (meson list.set_intros(1))
  have "\<exists>s'. foldM f xs t = Inr s' \<and> P ((pre @ [x]) @ xs) s'"
    by (rule Cons.IH [OF t(2)]) (use Cons.prems(2) in auto)
  with t show ?case by simp
qed

lemma UArray2_map_row_major_foldM:
  "UArray2_map_row_major a apply cl =
     foldM (visit UArray2_at apply) (row_major_order (ua2_width a) (ua2_height a)) (a, cl)"
  unfolding UArray2_map_row_major_def row_major_order_def Let_def for_loop_foldM
  by (simp add: foldM_nested [where k = "\<lambda>row col. (col, row)" and g = "visit UArray2_at apply"] visit_def)

lemma UArray2_map_col_major_foldM:
  "UArray2_map_col_major a apply cl =
     foldM (visit UArray2_at apply) (col_major_order (ua2_width a) (ua2_height a)) (a, cl)"
  unfolding UArray2_map_col_major_def col_major_order_def Let_def for_loop_foldM
  by (simp add: foldM_nested [where k = "\<lambda>col row. (col, row)" and g = "visit UArray2_at apply"] visit_def)

lemma set_row_major_order: "set (row_major_order w h) = {0..<w} \<times> {0..<h}"
  by (auto simp: row_major_order_def)

lemma set_col_major_order: "set (col_major_order w h) = {0..<w} \<times> {0..<h}"
  by (auto simp: col_major_order_def)

lemma distinct_concat_map_key:
  assumes "distinct xs"
    and "\<And>x. x \<in> set xs \<Longrightarrow> distinct (f x)"
    and "\<And>x e. x \<in> set xs \<Longrightarrow> e \<in> set (f x) \<Longrightarrow> key e = x"
  shows "distinct (concat (map f xs))"
  using assms
proof (induction xs)
  case Nil
  show ?case by simp
next
  case (Cons x xs)
  have "set (f x) \<inter> (\<Union>y\<in>set xs. set (f y)) = {}"
  proof (rule ccontr)
    assume "set (f x) \<inter> (\<Union>y\<in>set xs. set (f y)) \<noteq> {}"
    then obtain e y where "e \<in> set (f x)" "y \<in> set xs" "e \<in> set (f y)"
      by blast
    then have "key e = x" "key e = y"
      using Cons.prems(3) by simp_all
    with \<open>y \<in> set xs\<close> Cons.prems(1) show False
      by simp
  qed
  moreover have "distinct (concat (map f xs))"
    using Cons.prems by (intro Cons.IH) simp_all
  ultimately show ?case
    using Cons.prems(2) by simp
qed

lemma distinct_row_major_order: "distinct (row_major_order w h)"
  unfolding row_major_order_def
  by (rule distinct_concat_map_key [where key = snd]) (auto simp: distinct_map inj_on_def)

lemma distinct_col_major_order: "distinct (col_major_order w h)"
  unfolding col_major_order_def
  by (rule distinct_concat_map_key [where key = fst]) (auto simp: distinct_map inj_on_def)


section \<open>Construction of the blocked array\<close>

lemma flat_index_bound:
  fixes c r w h :: int
  assumes "0 \<le> c" "c < w" "0 \<le> r" "r < h"
  shows "0 \<le> r * w + c" "r * w + c < w * h"
proof -
  from assms show "0 \<le> r * w + c" by simp
  have "r * w \<le> (h - 1) * w"
    using assms by (intro mult_right_mono) simp_all
  then show "r * w + c < w * h"
    using assms by (simp add: algebra_simps)
qed

lemma flat_index_inj:
  fixes c r c' r' w :: int
  assumes "0 \<le> c" "c < w" "0 \<le> c'" "c' < w" "r * w + c = r' * w + c'"
  shows "c = c' \<and> r = r'"
proof -
  have "(r * w + c) div w = r" "(r' * w + c') div w = r'"
    using assms(1-4) by simp_all
  with assms(5) have "r = r'" by metis
  with assms(5) show ?thesis by simp
qed

lemma flat_index_surj:
  fixes i w h :: int
  assumes "0 < w" "0 \<le> i" "i < w * h"
  shows "0 \<le> i mod w" "i mod w < w" "0 \<le> i div w" "i div w < h" "i = (i div w) * w + i mod w"
proof -
  show "0 \<le> i mod w" "i mod w < w" "0 \<le> i div w" "i = (i div w) * w + i mod w"
    using assms by (simp_all add: pos_imp_zdiv_nonneg_iff)
  have "i = i div w * w + i mod w" "0 \<le> i mod w" "w * h = h * w"
    using assms(1) by simp_all
  with assms(3) have "i div w * w < h * w"
    by linarith
  then show "i div w < h"
    using assms(1) by (simp add: mult_less_cancel_right)
qed

lemma cell_init_loop:
  fixes cl :: "'a::zero UArray2b_T"
  assumes bw: "0 < bw" and bh: "0 < bh" and sz: "0 < u2b_size cl"
    and ov: "u2b_blocksize cl * u2b_blocksize cl \<le> INT_MAX"
  defines "B \<equiv> UArray (replicate (nat (u2b_blocksize cl * u2b_blocksize cl)) (0::'a))"
  shows "UArray2_map_row_major
           \<lparr>ua2_width = bw, ua2_height = bh, ua2_size = s, ua2_elems = replicate (nat (bw * bh)) 0\<rparr>
           cell_init cl =
         Inr (\<lparr>ua2_width = bw, ua2_height = bh, ua2_size = s,
               ua2_elems = replicate (nat (bw * bh)) B\<rparr>, cl)"
proof -
  define n where "n = nat (bw * bh)"
  define a0 :: "'a UArray_T UArray2_T" where
    "a0 = \<lparr>ua2_width = bw, ua2_height = bh, ua2_size = s, ua2_elems = replicate n 0\<rparr>"
  define flat where "flat = (\<lambda>(c::int, r::int). r * bw + c)"
  define P where "P = (\<lambda>seen (a :: 'a UArray_T UArray2_T, c).
     c = cl \<and> ua2_width a = bw \<and> ua2_height a = bh \<and> ua2_size a = s \<and>
     length (ua2_elems a) = n \<and>
     (\<forall>i<n. ua2_elems a ! i = (if int i \<in> flat ` set seen then B else UArray_NULL)))"
  have new: "UArray_new (u2b_blocksize cl * u2b_blocksize cl) (u2b_size cl) = Inr B"
    using sz by (simp add: UArray_new_def B_def)
  have P0: "P [] (a0, cl)"
    by (simp add: P_def a0_def zero_UArray_T_def)
  have step: "\<exists>t'. visit UArray2_at cell_init x t = Inr t' \<and> P (seen @ [x]) t'"
    if "P seen t" and "x \<in> set (row_major_order bw bh)" for seen x t
  proof -
    obtain a c where t: "t = (a, c)" by (cases t)
    obtain col row where x: "x = (col, row)" by (cases x)
    from that(2) x have cr: "0 \<le> col" "col < bw" "0 \<le> row" "row < bh"
      by (simp_all add: set_row_major_order)
    from that(1) t have inv: "c = cl" "ua2_width a = bw" "ua2_height a = bh" "ua2_size a = s"
      "length (ua2_elems a) = n"
      "\<And>i. i < n \<Longrightarrow> ua2_elems a ! i = (if int i \<in> flat ` set seen then B else UArray_NULL)"
      by (simp_all add: P_def)
    have p: "0 \<le> row * bw + col" "row * bw + col < bw * bh"
      using flat_index_bound [OF cr] by simp_all
    have pn: "nat (row * bw + col) < n"
      using p by (simp add: n_def)
    have at: "UArray2_at a col row = Inr (row * bw + col)"
      using cr inv by (simp add: UArray2_at_def)
    have res: "visit UArray2_at cell_init x t = Inr (UArray2_store a (row * bw + col) B, cl)"
      using at new inv(1) ov by (simp add: visit_def x t cell_init_def Let_def)
    have nth: "(ua2_elems a)[nat (row * bw + col) := B] ! i =
            (if int i \<in> flat ` set (seen @ [x]) then B else UArray_NULL)" if i: "i < n" for i
    proof -
      have eq: "(int i = flat x) = (i = nat (row * bw + col))"
        using p by (auto simp: flat_def x)
      show ?thesis
        using i pn inv(5) inv(6) [OF i] by (simp add: eq nth_list_update)
    qed
    have "P (seen @ [x]) (UArray2_store a (row * bw + col) B, cl)"
      using nth by (simp add: P_def UArray2_store_def inv(2-5))
    with res show ?thesis by blast
  qed
  have "\<exists>s'. foldM (visit UArray2_at cell_init) (row_major_order bw bh) (a0, cl) = Inr s' \<and>
          P ([] @ row_major_order bw bh) s'"
  proof (rule foldM_invariant [where P = P])
    show "P [] (a0, cl)" by (rule P0)
  next
    fix seen x t
    assume "P seen t" "x \<in> set (row_major_order bw bh)"
    then show "\<exists>t'. visit UArray2_at cell_init x t = Inr t' \<and> P (seen @ [x]) t'"
      by (rule step)
  qed
  then obtain s' where s': "foldM (visit UArray2_at cell_init) (row_major_order bw bh) (a0, cl) = Inr s'"
    "P (row_major_order bw bh) s'"
    by auto
  obtain a' c' where ac: "s' = (a', c')" by (cases s')
  from s'(2) ac have fin: "c' = cl" "ua2_width a' = bw" "ua2_height a' = bh" "ua2_size a' = s"
    "length (ua2_elems a') = n"
    "\<And>i. i < n \<Longrightarrow> ua2_elems a' ! i =
       (if int i \<in> flat ` set (row_major_order bw bh) then B else UArray_NULL)"
    by (simp_all add: P_def)
  have all: "ua2_elems a' ! i = B" if "i < n" for i
  proof -
    have i: "0 \<le> int i" "int i < bw * bh"
      using that by (simp_all add: n_def)
    note d = flat_index_surj [OF bw i]
    have "(int i mod bw, int i div bw) \<in> set (row_major_order bw bh)"
      using d by (simp add: set_row_major_order)
    moreover have "flat (int i mod bw, int i div bw) = int i"
      using d(5) by (simp add: flat_def)
    ultimately have "int i \<in> flat ` set (row_major_order bw bh)"
      by (metis image_eqI)
    with fin(6) [OF that] show ?thesis by simp
  qed
  have "ua2_elems a' = replicate n B"
    using fin(5) all by (simp add: list_eq_iff_nth_eq)
  with fin have "a' = \<lparr>ua2_width = bw, ua2_height = bh, ua2_size = s, ua2_elems = replicate n B\<rparr>"
    by simp
  with s'(1) ac fin(1) show ?thesis
    by (simp add: UArray2_map_row_major_foldM a0_def n_def)
qed


lemma sdiv_nonneg_pos: "0 \<le> a \<Longrightarrow> 0 < b \<Longrightarrow> a sdiv b = a div (b::int)"
  by (simp add: signed_divide_int_def sgn_if)

lemma smod_nonneg_pos: "0 \<le> a \<Longrightarrow> 0 < b \<Longrightarrow> a smod b = a mod (b::int)"
  by (simp add: signed_modulo_int_def sgn_if)

lemma block_count_div: "block_count n bs = - (- n div bs)"
  by (simp add: block_count_def ceiling_divide_eq_div)

lemma block_count_bounds:
  assumes "0 < bs" "0 < n"
  shows "(block_count n bs - 1) * bs < n" "n \<le> block_count n bs * bs" "0 < block_count n bs"
proof -
  define q where "q = - n div bs"
  have e: "- n = q * bs + (- n) mod bs" and m: "0 \<le> (- n) mod bs" "(- n) mod bs < bs"
    using assms(1) by (simp_all add: q_def)
  have bc: "block_count n bs = - q"
    by (simp add: block_count_div q_def)
  have "(- q - 1) * bs = - (q * bs) - bs"
    by (simp add: algebra_simps)
  with e m show "(block_count n bs - 1) * bs < n"
    unfolding bc by linarith
  have "- q * bs = - (q * bs)" by simp
  with e m show le: "n \<le> block_count n bs * bs"
    unfolding bc by linarith
  show "0 < block_count n bs"
  proof (rule ccontr)
    assume "\<not> 0 < block_count n bs"
    then have "block_count n bs * bs \<le> 0"
      using assms(1) by (simp add: mult_le_0_iff)
    with le assms(2) show False by simp
  qed
qed

lemma UArray2b_init_ok:
  assumes "0 < w" "0 < h" "0 < sz" "0 < bs" "bs \<le> w" "bs \<le> h" "bs * bs \<le> INT_MAX"
  shows "UArray2b_init w h sz bs =
           Inr \<lparr>u2b_width = w, u2b_height = h, u2b_size = sz, u2b_blocksize = bs,
                u2b_blocks = init_blocks w h bs\<rparr>"
proof -
  note bw = block_count_bounds(3) [OF assms(4) assms(1)]
  note bh = block_count_bounds(3) [OF assms(4) assms(2)]
  let ?g = "\<lambda>b. \<lparr>u2b_width = w, u2b_height = h, u2b_size = sz, u2b_blocksize = bs,
                u2b_blocks = b\<rparr> :: 'a UArray2b_T"
  have new: "UArray2_new (block_count w bs) (block_count h bs) sizeof_UArray_T =
     Inr (\<lparr>ua2_width = block_count w bs, ua2_height = block_count h bs, ua2_size = sizeof_UArray_T,
       ua2_elems = replicate (nat (block_count w bs * block_count h bs)) 0\<rparr>
          :: 'a UArray_T UArray2_T)"
    using bw bh by (simp add: UArray2_new_def sizeof_UArray_T_def)
  have loop: "UArray2_map_row_major
       \<lparr>ua2_width = block_count w bs, ua2_height = block_count h bs, ua2_size = sizeof_UArray_T,
        ua2_elems = replicate (nat (block_count w bs * block_count h bs)) 0\<rparr>
       cell_init (?g b) = Inr (init_blocks w h bs, ?g b)" for b
    using cell_init_loop [OF bw bh, of "?g b" sizeof_UArray_T] assms(3) assms(7)
    by (simp add: init_blocks_def)
  show ?thesis
    using assms
    by (simp add: UArray2b_init_def blocks_init_def Let_def new loop
        block_count_def [symmetric])
qed

lemma row_major_order_Cons:
  assumes "0 < w" "0 < h"
  shows "\<exists>rest. row_major_order w h = (0, 0) # rest"
proof -
  have "[0..h - 1] = 0 # [1..h - 1]" "[0..w - 1] = 0 # [1..w - 1]"
    using assms by (simp_all add: upto_rec1)
  then show ?thesis
    by (simp add: row_major_order_def)
qed

lemma UArray2b_init_overflow:
  assumes "0 < w" "0 < h" "0 < sz" "0 < bs" "bs \<le> w" "bs \<le> h" "INT_MAX < bs * bs"
  shows "(UArray2b_init w h sz bs :: error + ('a::zero) UArray2b_T) = Inl Signed_Overflow"
proof -
  note bw = block_count_bounds(3) [OF assms(4) assms(1)]
  note bh = block_count_bounds(3) [OF assms(4) assms(2)]
  from row_major_order_Cons [OF bw bh]
  obtain rest where r: "row_major_order (block_count w bs) (block_count h bs) = (0, 0) # rest"
    by blast
  let ?g = "\<lparr>u2b_width = w, u2b_height = h, u2b_size = sz, u2b_blocksize = bs,
              u2b_blocks = \<lparr>ua2_width = block_count w bs, ua2_height = block_count h bs,
                ua2_size = sizeof_UArray_T,
                ua2_elems = replicate (nat (block_count w bs * block_count h bs)) 0\<rparr>\<rparr>
            :: 'a UArray2b_T"
  have "UArray2_map_row_major (u2b_blocks ?g) cell_init ?g = Inl Signed_Overflow"
    using bw bh assms(7)
    by (simp add: UArray2_map_row_major_foldM r visit_def UArray2_at_def cell_init_def)
  then show ?thesis
    using assms(1-6) bw bh
    by (simp add: UArray2b_init_def blocks_init_def Let_def UArray2_new_def sizeof_UArray_T_def
        block_count_def [symmetric])
qed

section \<open>The block size of the 64K constructor\<close>

lemma int_le_sqrt:
  fixes n b :: int
  assumes "0 \<le> b" "real_of_int b \<le> sqrt (real_of_int n)"
  shows "b * b \<le> n"
proof -
  have "sqrt (real_of_int (b * b)) = real_of_int b"
    using assms(1) by (simp add: real_sqrt_mult)
  with assms(2) have "sqrt (real_of_int (b * b)) \<le> sqrt (real_of_int n)"
    by simp
  then show ?thesis
    by (simp only: real_sqrt_le_iff of_int_le_iff)
qed

lemma blocksize_64K_range:
  assumes "0 < w" "0 < h" "0 < sz"
  shows "0 < blocksize_64K w h sz" "blocksize_64K w h sz \<le> w" "blocksize_64K w h sz \<le> h"
    "blocksize_64K w h sz * blocksize_64K w h sz \<le> INT_MAX"
proof -
  define n where "n = 64000 sdiv sz"
  define r where "r = sqrt (real_of_int n)"
  have b: "blocksize_64K w h sz =
      (if n < 1 then 1 else if real_of_int w < r \<or> real_of_int h < r then (if h < w then h else w)
       else \<lfloor>r\<rfloor>)"
    by (simp add: blocksize_64K_def n_def r_def Let_def)
  have r1: "1 \<le> r" if "\<not> n < 1"
    using that by (simp add: r_def)
  show "0 < blocksize_64K w h sz"
    using assms r1 by (auto simp: b intro: order_less_le_trans [of 0 1])
  have fl: "\<lfloor>r\<rfloor> \<le> k" if "r \<le> real_of_int k" for k
    using that by (simp add: floor_le_iff)
  show "blocksize_64K w h sz \<le> w" "blocksize_64K w h sz \<le> h"
    using assms fl by (auto simp: b)
  have n: "n \<le> 64000"
    using assms(3) zdiv_mono2 [of 64000 1 sz] by (simp add: n_def sdiv_nonneg_pos)
  show "blocksize_64K w h sz * blocksize_64K w h sz \<le> INT_MAX"
  proof (cases "n < 1")
    case True
    then show ?thesis by (simp add: b INT_MAX_def)
  next
    case False
    have "real_of_int (blocksize_64K w h sz) \<le> r"
      using False by (auto simp: b)
    moreover have "0 \<le> blocksize_64K w h sz"
      using \<open>0 < blocksize_64K w h sz\<close> by simp
    ultimately have "blocksize_64K w h sz * blocksize_64K w h sz \<le> n"
      unfolding r_def by (rule int_le_sqrt [rotated])
    with n show ?thesis by (simp add: INT_MAX_def)
  qed
qed

lemma sqrt_gt_int_iff:
  fixes n w :: int
  assumes "0 \<le> w"
  shows "real_of_int w < sqrt (real_of_int n) \<longleftrightarrow> w * w < n"
proof -
  have "real_of_int w = sqrt (real_of_int (w * w))"
    using assms by (simp add: real_sqrt_mult)
  then have "real_of_int w < sqrt (real_of_int n) \<longleftrightarrow>
             sqrt (real_of_int (w * w)) < sqrt (real_of_int n)" by simp
  also have "\<dots> \<longleftrightarrow> w * w < n"
    by (simp only: real_sqrt_less_iff of_int_less_iff)
  finally show ?thesis .
qed

lemma floor_sqrt_eq:
  fixes n b :: int
  assumes "0 \<le> b" "b * b \<le> n" "n < (b + 1) * (b + 1)"
  shows "\<lfloor>sqrt (real_of_int n)\<rfloor> = b"
proof (rule floor_unique)
  have "\<not> real_of_int b > sqrt (real_of_int n)"
  proof
    assume "real_of_int b > sqrt (real_of_int n)"
    then have "sqrt (real_of_int n) < sqrt (real_of_int (b * b))"
      using assms(1) by (simp add: real_sqrt_mult)
    then have "n < b * b"
      by (simp only: real_sqrt_less_iff of_int_less_iff)
    with assms(2) show False by simp
  qed
  then show "real_of_int b \<le> sqrt (real_of_int n)" by simp
  have "sqrt (real_of_int n) < sqrt (real_of_int ((b + 1) * (b + 1)))"
    using assms(3) by (simp only: real_sqrt_less_iff of_int_less_iff)
  also have "\<dots> = real_of_int b + 1"
    using assms(1) by (simp add: real_sqrt_mult)
  finally show "sqrt (real_of_int n) < real_of_int b + 1" .
qed

text \<open>
  \<open>C3\<close>.  For every positive width, height and element size, the 64K constructor succeeds
  and the block size of the array it returns is chosen by three exclusive cases on
  \<open>cells = 64000 / elementSize\<close>: 1 when \<open>cells < 1\<close>; the smaller of width and height
  when the square root of \<open>cells\<close> exceeds the width or the height; the floor of the square
  root otherwise.  An element size above 64000 gives 1; element size 1 gives 252 for a
  1000 by 1000 grid and 5 for a grid of width 5 and height 1000.
\<close>

theorem UArray2b_new_64K_block_blocksize:
  fixes w h sz :: int
  assumes "0 < w" "0 < h" "0 < sz"
  shows "map_sum id u2b_blocksize (UArray2b_new_64K_block w h sz :: error + ('a::zero) UArray2b_T) =
           Inr (if 64000 div sz < 1 then 1
                else if sqrt (real_of_int (64000 div sz)) > real_of_int w
                      \<or> sqrt (real_of_int (64000 div sz)) > real_of_int h
                then min w h
                else \<lfloor>sqrt (real_of_int (64000 div sz))\<rfloor>)
         \<and> (64000 < sz \<longrightarrow>
              map_sum id u2b_blocksize (UArray2b_new_64K_block w h sz :: error + 'a UArray2b_T) = Inr 1)
         \<and> map_sum id u2b_blocksize (UArray2b_new_64K_block 1000 1000 1 :: error + 'a UArray2b_T)
              = Inr 252
         \<and> map_sum id u2b_blocksize (UArray2b_new_64K_block 5 1000 1 :: error + 'a UArray2b_T)
              = Inr 5"
proof -
  have ok: "map_sum id u2b_blocksize (UArray2b_new_64K_block w' h' sz' :: error + 'a UArray2b_T) =
      Inr (blocksize_64K w' h' sz')" if "0 < w'" "0 < h'" "0 < sz'" for w' h' sz'
    using blocksize_64K_range [OF that] that
    by (simp add: UArray2b_new_64K_block_def UArray2b_init_ok)
  have gen: "blocksize_64K w h sz =
      (if 64000 div sz < 1 then 1
                else if sqrt (real_of_int (64000 div sz)) > real_of_int w
                      \<or> sqrt (real_of_int (64000 div sz)) > real_of_int h
                then min w h
                else \<lfloor>sqrt (real_of_int (64000 div sz))\<rfloor>)"
    using assms by (simp add: blocksize_64K_def Let_def sdiv_nonneg_pos min_def)
  have big: "blocksize_64K w h sz = 1" if "64000 < sz"
    using that by (simp add: blocksize_64K_def Let_def sdiv_nonneg_pos div_pos_pos_trivial)
  have fl: "\<lfloor>sqrt (real_of_int 64000)\<rfloor> = 252"
    by (rule floor_sqrt_eq) simp_all
  have c1: "blocksize_64K 1000 1000 1 = 252"
    using fl sqrt_gt_int_iff [of 1000 64000] by (simp add: blocksize_64K_def)
  have c2: "blocksize_64K 5 1000 1 = 5"
    using sqrt_gt_int_iff [of 5 64000] by (simp add: blocksize_64K_def)
  show ?thesis
    using ok [OF assms] gen big c1 c2 ok [of 1000 1000 1] ok [of 5 1000 1] by simp
qed

text \<open>The theorem at a 3 by 2 grid of 16000-byte elements and at a 64001-byte element.\<close>

theorem UArray2b_new_64K_block_blocksize_witness:
  "(0::int) < 3 \<and> (0::int) < 2 \<and> (0::int) < 16000 \<and>
   map_sum id u2b_blocksize (UArray2b_new_64K_block 3 2 16000 :: error + nat UArray2b_T) = Inr 2
   \<and> map_sum id u2b_blocksize (UArray2b_new_64K_block 1 1 64001 :: error + nat UArray2b_T) = Inr 1"
  using UArray2b_new_64K_block_blocksize [of 3 2 16000, where 'a = nat]
    UArray2b_new_64K_block_blocksize [of 1 1 64001, where 'a = nat]
  by simp

section \<open>The blocked array: order of the traversal and random access\<close>

lemma block_count_if:
  assumes "0 < bs"
  shows "block_count n bs = (if n mod bs = 0 then n div bs else n div bs + 1)"
  using assms by (simp add: block_count_div zdiv_zminus1_eq_if)

lemma block_extent_range:
  assumes "0 < bs"
  shows "0 < block_extent n bs b" "block_extent n bs b \<le> bs"
proof -
  show "0 < block_extent n bs b"
  proof (cases "b = block_count n bs - 1 \<and> n mod bs \<noteq> 0")
    case True
    moreover have "0 \<le> n mod bs"
      using assms by simp
    ultimately have "0 < n mod bs" by linarith
    with True show ?thesis by (simp add: block_extent_def)
  next
    case False
    with assms show ?thesis by (auto simp: block_extent_def)
  qed
  have "n mod bs \<le> bs"
    using pos_mod_bound [OF assms, of n] by (rule less_imp_le)
  then show "block_extent n bs b \<le> bs"
    by (simp add: block_extent_def)
qed

lemma block_coordinate:
  assumes bs: "0 < bs" and n: "0 < n"
    and b: "0 \<le> b" "b < block_count n bs" and x: "0 \<le> x" "x < block_extent n bs b"
  shows "0 \<le> b * bs + x" "b * bs + x < n" "(b * bs + x) div bs = b" "(b * bs + x) mod bs = x"
proof -
  have xbs: "x < bs"
    using x(2) block_extent_range(2) [OF bs, of n b] by simp
  show "0 \<le> b * bs + x"
    using b(1) bs x(1) by simp
  show "(b * bs + x) div bs = b" "(b * bs + x) mod bs = x"
    using x(1) xbs bs by simp_all
  have e: "n = (n div bs) * bs + n mod bs" and m: "0 \<le> n mod bs"
    using bs by simp_all
  show "b * bs + x < n"
  proof (cases "b = block_count n bs - 1")
    case True
    show ?thesis
    proof (cases "n mod bs = 0")
      case True
      with \<open>b = block_count n bs - 1\<close> bs have "b + 1 = n div bs"
        by (simp add: block_count_if)
      moreover have "b * bs + bs = (b + 1) * bs"
        by (simp add: algebra_simps)
      ultimately have "b * bs + bs = (n div bs) * bs"
        by simp
      with e True xbs show ?thesis by linarith
    next
      case False
      with \<open>b = block_count n bs - 1\<close> bs have bd: "b = n div bs" and xm: "x < n mod bs"
        using x(2) by (simp_all add: block_count_if block_extent_def)
      show ?thesis
        unfolding bd using e xm by linarith
    qed
  next
    case False
    with b(2) have "b + 1 \<le> block_count n bs - 1" by simp
    then have "(b + 1) * bs \<le> (block_count n bs - 1) * bs"
      using bs by (intro mult_right_mono) simp_all
    also have "\<dots> < n"
      by (rule block_count_bounds(1) [OF bs n])
    finally have "b * bs + bs < n"
      by (simp add: algebra_simps)
    with xbs show ?thesis by simp
  qed
qed

lemma coordinate_block:
  assumes bs: "0 < bs" and c: "0 \<le> c" "c < n"
  shows "0 \<le> c div bs" "c div bs < block_count n bs"
    "0 \<le> c mod bs" "c mod bs < block_extent n bs (c div bs)"
proof -
  show "0 \<le> c div bs" "0 \<le> c mod bs"
    using bs c(1) by (simp_all add: pos_imp_zdiv_nonneg_iff)
  have le: "c div bs \<le> n div bs"
    using c(2) bs by (intro zdiv_mono1) simp_all
  have ec: "c = (c div bs) * bs + c mod bs" and en: "n = (n div bs) * bs + n mod bs"
    and mc: "0 \<le> c mod bs" "c mod bs < bs" and mn: "0 \<le> n mod bs"
    using bs by simp_all
  have lt: "c div bs < n div bs" if "n mod bs = 0"
  proof (rule ccontr)
    assume "\<not> c div bs < n div bs"
    with le have "c div bs = n div bs" by simp
    with ec en that mc c(2) show False by simp
  qed
  show "c div bs < block_count n bs"
    using le lt bs by (auto simp: block_count_if)
  show "c mod bs < block_extent n bs (c div bs)"
  proof (cases "c div bs = block_count n bs - 1 \<and> n mod bs \<noteq> 0")
    case True
    with bs have "c div bs = n div bs"
      by (simp add: block_count_if)
    with ec en c(2) have "c mod bs < n mod bs"
      by (metis add_less_cancel_left)
    with True show ?thesis
      by (simp add: block_extent_def)
  next
    case False
    with mc show ?thesis
      by (auto simp: block_extent_def)
  qed
qed

lemma foldM_concat: "foldM f (concat xss) s = foldM (\<lambda>xs. foldM f xs) xss s"
  by (induction xss arbitrary: s) (auto simp: foldM_append split: sum.splits)

lemma in_block_cells:
  "(c, r) \<in> set (block_cells bs ew eh bc br) \<longleftrightarrow>
     (\<exists>x y. 0 \<le> x \<and> x < ew \<and> 0 \<le> y \<and> y < eh \<and> c = bc * bs + x \<and> r = br * bs + y)"
  by (fastforce simp: block_cells_def)

lemma in_block_major_order:
  "(c, r) \<in> set (block_major_order w h bs) \<longleftrightarrow>
     (\<exists>bc br. 0 \<le> bc \<and> bc < block_count w bs \<and> 0 \<le> br \<and> br < block_count h bs \<and>
        (c, r) \<in> set (block_cells bs (block_extent w bs bc) (block_extent h bs br) bc br))"
  by (fastforce simp: block_major_order_def set_row_major_order)

lemma set_block_major_order:
  assumes bs: "0 < bs" and w: "0 < w" and h: "0 < h"
  shows "set (block_major_order w h bs) = {0..<w} \<times> {0..<h}"
proof (rule set_eqI)
  fix p :: "int \<times> int"
  obtain c r where p: "p = (c, r)" by (cases p)
  show "p \<in> set (block_major_order w h bs) \<longleftrightarrow> p \<in> {0..<w} \<times> {0..<h}"
  proof
    assume "p \<in> set (block_major_order w h bs)"
    then obtain bc br x y where
      b: "0 \<le> bc" "bc < block_count w bs" "0 \<le> br" "br < block_count h bs"
      and x: "0 \<le> x" "x < block_extent w bs bc" and y: "0 \<le> y" "y < block_extent h bs br"
      and e: "c = bc * bs + x" "r = br * bs + y"
      unfolding p in_block_major_order in_block_cells by blast
    from block_coordinate(1,2) [OF bs w b(1,2) x] block_coordinate(1,2) [OF bs h b(3,4) y]
    show "p \<in> {0..<w} \<times> {0..<h}"
      by (simp add: p e)
  next
    assume "p \<in> {0..<w} \<times> {0..<h}"
    then have c: "0 \<le> c" "c < w" and r: "0 \<le> r" "r < h"
      by (simp_all add: p)
    note cb = coordinate_block [OF bs c]
    note rb = coordinate_block [OF bs r]
    have "(c, r) \<in> set (block_cells bs (block_extent w bs (c div bs))
        (block_extent h bs (r div bs)) (c div bs) (r div bs))"
      unfolding in_block_cells
      by (rule exI [of _ "c mod bs"], rule exI [of _ "r mod bs"]) (use cb rb in simp)
    with cb rb show "p \<in> set (block_major_order w h bs)"
      unfolding p in_block_major_order by blast
  qed
qed

lemma distinct_block_cells: "distinct (block_cells bs ew eh bc br)"
  unfolding block_cells_def
  by (rule distinct_concat_map_key [where key = "\<lambda>(c, r). r - br * bs"])
     (auto simp: distinct_map inj_on_def)

lemma distinct_block_major_order:
  assumes bs: "0 < bs" and w: "0 < w" and h: "0 < h"
  shows "distinct (block_major_order w h bs)"
  unfolding block_major_order_def
proof (rule distinct_concat_map_key [where key = "\<lambda>(c, r). (c div bs, r div bs)"])
  show "distinct (row_major_order (block_count w bs) (block_count h bs))"
    by (rule distinct_row_major_order)
next
  fix b assume "b \<in> set (row_major_order (block_count w bs) (block_count h bs))"
  show "distinct (case b of (bc, br) \<Rightarrow>
      block_cells bs (block_extent w bs bc) (block_extent h bs br) bc br)"
    by (cases b) (simp add: distinct_block_cells)
next
  fix b e
  assume b: "b \<in> set (row_major_order (block_count w bs) (block_count h bs))"
    and e: "e \<in> set (case b of (bc, br) \<Rightarrow>
      block_cells bs (block_extent w bs bc) (block_extent h bs br) bc br)"
  obtain bc br where bb: "b = (bc, br)" by (cases b)
  obtain c r where ee: "e = (c, r)" by (cases e)
  from b bb have bd: "0 \<le> bc" "bc < block_count w bs" "0 \<le> br" "br < block_count h bs"
    by (simp_all add: set_row_major_order)
  from e obtain x y where x: "0 \<le> x" "x < block_extent w bs bc"
    and y: "0 \<le> y" "y < block_extent h bs br" and cr: "c = bc * bs + x" "r = br * bs + y"
    unfolding bb ee by (auto simp: in_block_cells)
  from block_coordinate(3) [OF bs w bd(1,2) x] block_coordinate(3) [OF bs h bd(3,4) y]
  show "(case e of (c, r) \<Rightarrow> (c div bs, r div bs)) = b"
    by (simp add: ee bb cr)
qed

lemma UArray2b_map_foldM:
  assumes wf: "UArray2b_wf g"
  shows "UArray2b_map g f cl =
     foldM (visit UArray2b_at f)
       (block_major_order (u2b_width g) (u2b_height g) (u2b_blocksize g)) (g, cl)"
proof -
  define bs where "bs = u2b_blocksize g"
  define w where "w = u2b_width g"
  define h where "h = u2b_height g"
  from wf have pos: "0 < bs" "0 < w" "0 < h"
    and bw: "ua2_width (u2b_blocks g) = block_count w bs"
    and bh: "ua2_height (u2b_blocks g) = block_count h bs"
    by (simp_all add: UArray2b_wf_def bs_def w_def h_def)
  have sm: "h smod bs = h mod bs" "w smod bs = w mod bs"
    using pos by (simp_all add: smod_nonneg_pos)
  let ?V = "visit UArray2b_at f"
  have inner: "foldM (\<lambda>y. foldM (\<lambda>x (g', cl').
                 case UArray2b_at g' (bc * bs + x) (br * bs + y) of
                   Inl e \<Rightarrow> Inl e
                 | Inr elem \<Rightarrow> f (bc * bs + x) (br * bs + y) g' elem cl') [0..ew - 1])
               [0..eh - 1] s =
      foldM ?V (block_cells bs ew eh bc br) s" for bc br ew eh s
    unfolding block_cells_def
    by (rule foldM_nested) (simp add: visit_def)
  have "UArray2b_map g f cl =
      foldM (\<lambda>br. foldM (\<lambda>bc.
          foldM ?V (block_cells bs (block_extent w bs bc) (block_extent h bs br) bc br))
        [0..block_count w bs - 1]) [0..block_count h bs - 1] (g, cl)"
    unfolding UArray2b_map_def Let_def for_loop_foldM UArray2_width_def UArray2_height_def
      bs_def [symmetric] w_def [symmetric] h_def [symmetric] bw bh sm block_extent_def
    by (intro foldM_cong inner)
  also have "\<dots> = foldM (\<lambda>(bc, br).
          foldM ?V (block_cells bs (block_extent w bs bc) (block_extent h bs br) bc br))
        (row_major_order (block_count w bs) (block_count h bs)) (g, cl)"
    unfolding row_major_order_def
    by (rule foldM_nested) simp
  also have "\<dots> = foldM ?V (block_major_order w h bs) (g, cl)"
    unfolding block_major_order_def foldM_concat foldM_map
    by (rule foldM_cong) auto
  finally show ?thesis
    by (simp add: bs_def w_def h_def)
qed

lemma UArray2b_init_Inr:
  fixes g :: "('a::zero) UArray2b_T"
  assumes "UArray2b_init w h sz bs = Inr g"
  shows "0 < w" "0 < h" "0 < sz" "0 < bs" "bs \<le> w" "bs \<le> h" "bs * bs \<le> INT_MAX"
    "g = \<lparr>u2b_width = w, u2b_height = h, u2b_size = sz, u2b_blocksize = bs,
          u2b_blocks = init_blocks w h bs\<rparr>"
proof -
  from assms show c: "0 < w" "0 < h" "0 < sz" "0 < bs" "bs \<le> w" "bs \<le> h"
    by (auto simp: UArray2b_init_def split: if_splits)
  show ov: "bs * bs \<le> INT_MAX"
  proof (rule ccontr)
    assume "\<not> bs * bs \<le> INT_MAX"
    then have "INT_MAX < bs * bs" by simp
    from UArray2b_init_overflow [OF c this, where 'a = 'a] assms show False
      by simp
  qed
  from assms UArray2b_init_ok [OF c ov, where 'a = 'a]
  show "g = \<lparr>u2b_width = w, u2b_height = h, u2b_size = sz, u2b_blocksize = bs,
          u2b_blocks = init_blocks w h bs\<rparr>"
    by simp
qed

lemma UArray2b_new_wf:
  assumes "UArray2b_new w h sz bs = Inr g"
  shows "UArray2b_wf g" "u2b_width g = w" "u2b_height g = h" "u2b_blocksize g = bs"
proof -
  note i = UArray2b_init_Inr [OF assms [unfolded UArray2b_new_def]]
  show "u2b_width g = w" "u2b_height g = h" "u2b_blocksize g = bs"
    by (simp_all add: i(8))
  have "0 \<le> bs * bs" by simp
  then show "UArray2b_wf g"
    using i(1-7) block_count_bounds(3) [OF i(4) i(1)] block_count_bounds(3) [OF i(4) i(2)]
    by (simp add: i(8) UArray2b_wf_def UArray2_wf_def init_blocks_def)
qed

lemma UArray2b_wf_block:
  assumes wf: "UArray2b_wf g" and b: "0 \<le> b" "b < ua2_width (u2b_blocks g) * ua2_height (u2b_blocks g)"
  obtains xs where "ua2_elems (u2b_blocks g) ! nat b = UArray xs"
    "int (length xs) = u2b_blocksize g * u2b_blocksize g"
proof -
  from wf have len: "length (ua2_elems (u2b_blocks g)) =
      nat (ua2_width (u2b_blocks g) * ua2_height (u2b_blocks g))"
    and all: "\<And>x. x \<in> set (ua2_elems (u2b_blocks g)) \<Longrightarrow>
      UArray_length x = u2b_blocksize g * u2b_blocksize g"
    and bs: "0 < u2b_blocksize g"
    by (simp_all add: UArray2b_wf_def UArray2_wf_def)
  have "nat b < length (ua2_elems (u2b_blocks g))"
    using b len by simp
  then have "ua2_elems (u2b_blocks g) ! nat b \<in> set (ua2_elems (u2b_blocks g))"
    by (rule nth_mem)
  from all [OF this] have l: "UArray_length (ua2_elems (u2b_blocks g) ! nat b) =
      u2b_blocksize g * u2b_blocksize g" .
  have "0 < u2b_blocksize g * u2b_blocksize g"
    using bs by simp
  with l that show thesis
    by (cases "ua2_elems (u2b_blocks g) ! nat b") simp_all
qed

lemma UArray2b_cell_bounds:
  assumes wf: "UArray2b_wf g"
    and c: "0 \<le> col" "col < u2b_width g" and r: "0 \<le> row" "row < u2b_height g"
  shows "0 \<le> col div u2b_blocksize g" "col div u2b_blocksize g < ua2_width (u2b_blocks g)"
    "0 \<le> row div u2b_blocksize g" "row div u2b_blocksize g < ua2_height (u2b_blocks g)"
    "0 \<le> col mod u2b_blocksize g" "col mod u2b_blocksize g < u2b_blocksize g"
    "0 \<le> row mod u2b_blocksize g" "row mod u2b_blocksize g < u2b_blocksize g"
    "0 \<le> fst (UArray2b_cell g col row)"
    "fst (UArray2b_cell g col row) < ua2_width (u2b_blocks g) * ua2_height (u2b_blocks g)"
    "0 \<le> snd (UArray2b_cell g col row)"
    "snd (UArray2b_cell g col row) < u2b_blocksize g * u2b_blocksize g"
proof -
  from wf have bs: "0 < u2b_blocksize g"
    and bw: "ua2_width (u2b_blocks g) = block_count (u2b_width g) (u2b_blocksize g)"
    and bh: "ua2_height (u2b_blocks g) = block_count (u2b_height g) (u2b_blocksize g)"
    by (simp_all add: UArray2b_wf_def)
  note cb = coordinate_block(1,2) [OF bs c, folded bw]
  note rb = coordinate_block(1,2) [OF bs r, folded bh]
  show "0 \<le> col div u2b_blocksize g" "col div u2b_blocksize g < ua2_width (u2b_blocks g)"
    "0 \<le> row div u2b_blocksize g" "row div u2b_blocksize g < ua2_height (u2b_blocks g)"
    by (rule cb rb)+
  show m: "0 \<le> col mod u2b_blocksize g" "col mod u2b_blocksize g < u2b_blocksize g"
    "0 \<le> row mod u2b_blocksize g" "row mod u2b_blocksize g < u2b_blocksize g"
    using bs by simp_all
  show "0 \<le> fst (UArray2b_cell g col row)"
    "fst (UArray2b_cell g col row) < ua2_width (u2b_blocks g) * ua2_height (u2b_blocks g)"
    using flat_index_bound [OF cb rb] by (simp_all add: UArray2b_cell_def)
  show "0 \<le> snd (UArray2b_cell g col row)"
    "snd (UArray2b_cell g col row) < u2b_blocksize g * u2b_blocksize g"
    using flat_index_bound [OF m] by (simp_all add: UArray2b_cell_def mult.commute)
qed

lemma UArray2b_at_in_bounds:
  assumes wf: "UArray2b_wf g"
    and c: "0 \<le> col" "col < u2b_width g" and r: "0 \<le> row" "row < u2b_height g"
  shows "UArray2_at (u2b_blocks g) (col div u2b_blocksize g) (row div u2b_blocksize g) =
           Inr (fst (UArray2b_cell g col row))"
    and "UArray2b_at g col row = Inr (UArray2b_cell g col row)"
proof -
  from wf have bs: "0 < u2b_blocksize g"
    by (simp add: UArray2b_wf_def)
  note b = UArray2b_cell_bounds [OF wf c r]
  show at2: "UArray2_at (u2b_blocks g) (col div u2b_blocksize g) (row div u2b_blocksize g) =
           Inr (fst (UArray2b_cell g col row))"
    using b(1-4) by (simp add: UArray2_at_def UArray2b_cell_def)
  obtain xs where xs: "ua2_elems (u2b_blocks g) ! nat (fst (UArray2b_cell g col row)) = UArray xs"
    "int (length xs) = u2b_blocksize g * u2b_blocksize g"
    using UArray2b_wf_block [OF wf b(9,10)] .
  have off: "UArray_at (UArray xs) (snd (UArray2b_cell g col row)) =
      Inr (snd (UArray2b_cell g col row))"
    using b(11,12) xs(2) by simp
  show "UArray2b_at g col row = Inr (UArray2b_cell g col row)"
    using c r bs at2 xs(1) off
    by (simp add: UArray2b_at_def Let_def sdiv_nonneg_pos smod_nonneg_pos UArray2_load_def
        UArray2b_cell_def)
qed

lemma UArray2b_cell_inj:
  assumes wf: "UArray2b_wf g"
    and c: "0 \<le> col" "col < u2b_width g" and r: "0 \<le> row" "row < u2b_height g"
    and c': "0 \<le> col'" "col' < u2b_width g" and r': "0 \<le> row'" "row' < u2b_height g"
    and eq: "UArray2b_cell g col row = UArray2b_cell g col' row'"
  shows "col = col' \<and> row = row'"
proof -
  let ?bs = "u2b_blocksize g"
  from wf have bs: "0 < ?bs"
    by (simp add: UArray2b_wf_def)
  note b = UArray2b_cell_bounds [OF wf c r]
  note b' = UArray2b_cell_bounds [OF wf c' r']
  from eq have e1: "(row div ?bs) * ua2_width (u2b_blocks g) + col div ?bs =
      (row' div ?bs) * ua2_width (u2b_blocks g) + col' div ?bs"
    and e2: "(row mod ?bs) * ?bs + col mod ?bs = (row' mod ?bs) * ?bs + col' mod ?bs"
    by (simp_all add: UArray2b_cell_def mult.commute)
  from flat_index_inj [OF b(1,2) b'(1,2) e1]
  have d: "col div ?bs = col' div ?bs" "row div ?bs = row' div ?bs" by simp_all
  from flat_index_inj [OF b(5,6) b'(5,6) e2]
  have m: "col mod ?bs = col' mod ?bs" "row mod ?bs = row' mod ?bs" by simp_all
  have "col = col div ?bs * ?bs + col mod ?bs" "col' = col' div ?bs * ?bs + col' mod ?bs"
    "row = row div ?bs * ?bs + row mod ?bs" "row' = row' div ?bs * ?bs + row' mod ?bs"
    by simp_all
  with d m show ?thesis by metis
qed

lemma UArray2b_store_shape [simp]:
  "u2b_width (UArray2b_store g p v) = u2b_width g"
  "u2b_height (UArray2b_store g p v) = u2b_height g"
  "u2b_size (UArray2b_store g p v) = u2b_size g"
  "u2b_blocksize (UArray2b_store g p v) = u2b_blocksize g"
  "ua2_width (u2b_blocks (UArray2b_store g p v)) = ua2_width (u2b_blocks g)"
  "ua2_height (u2b_blocks (UArray2b_store g p v)) = ua2_height (u2b_blocks g)"
  "UArray2b_cell (UArray2b_store g p v) col row = UArray2b_cell g col row"
  by (simp_all add: UArray2b_store_def UArray2_store_def UArray2b_cell_def)

lemma UArray2b_store_laws:
  assumes wf: "UArray2b_wf g"
    and b: "0 \<le> b" "b < ua2_width (u2b_blocks g) * ua2_height (u2b_blocks g)"
    and i: "0 \<le> i" "i < u2b_blocksize g * u2b_blocksize g"
  shows "UArray2b_wf (UArray2b_store g (b, i) v)"
    and "UArray2b_load (UArray2b_store g (b, i) v) (b, i) = v"
    and "\<And>b' i'. 0 \<le> b' \<Longrightarrow> b' < ua2_width (u2b_blocks g) * ua2_height (u2b_blocks g) \<Longrightarrow>
           0 \<le> i' \<Longrightarrow> i' < u2b_blocksize g * u2b_blocksize g \<Longrightarrow> (b', i') \<noteq> (b, i) \<Longrightarrow>
           UArray2b_load (UArray2b_store g (b, i) v) (b', i') = UArray2b_load g (b', i')"
proof -
  let ?es = "ua2_elems (u2b_blocks g)"
  obtain xs where xs: "?es ! nat b = UArray xs"
    "int (length xs) = u2b_blocksize g * u2b_blocksize g"
    using UArray2b_wf_block [OF wf b] .
  from wf have len: "length ?es = nat (ua2_width (u2b_blocks g) * ua2_height (u2b_blocks g))"
    and all: "\<And>x. x \<in> set ?es \<Longrightarrow> UArray_length x = u2b_blocksize g * u2b_blocksize g"
    by (simp_all add: UArray2b_wf_def UArray2_wf_def)
  have nb: "nat b < length ?es"
    using b len by simp
  have ni: "nat i < length xs"
    using i xs(2) by simp
  have es': "ua2_elems (u2b_blocks (UArray2b_store g (b, i) v)) = ?es[nat b := UArray (xs[nat i := v])]"
    by (simp add: UArray2b_store_def UArray2_store_def UArray2_load_def xs(1))
  have "UArray_length x = u2b_blocksize g * u2b_blocksize g"
    if "x \<in> set (?es[nat b := UArray (xs[nat i := v])])" for x
  proof -
    from that set_update_subset_insert [of ?es "nat b" "UArray (xs[nat i := v])"]
    have "x = UArray (xs[nat i := v]) \<or> x \<in> set ?es" by auto
    then show ?thesis
      using all xs(2) by auto
  qed
  with wf show "UArray2b_wf (UArray2b_store g (b, i) v)"
    by (simp add: UArray2b_wf_def UArray2_wf_def es')
  show "UArray2b_load (UArray2b_store g (b, i) v) (b, i) = v"
    using nb ni by (simp add: UArray2b_load_def UArray2_load_def es')
  fix b' i'
  assume b': "0 \<le> b'" "b' < ua2_width (u2b_blocks g) * ua2_height (u2b_blocks g)"
    and i': "0 \<le> i'" "i' < u2b_blocksize g * u2b_blocksize g" and ne: "(b', i') \<noteq> (b, i)"
  show "UArray2b_load (UArray2b_store g (b, i) v) (b', i') = UArray2b_load g (b', i')"
  proof (cases "b' = b")
    case True
    with ne i i' have "nat i' \<noteq> nat i" by (simp add: eq_nat_nat_iff)
    with True nb ni show ?thesis
      by (simp add: UArray2b_load_def UArray2_load_def es' xs(1))
  next
    case False
    with b b' have "nat b' \<noteq> nat b" by (simp add: eq_nat_nat_iff)
    then show ?thesis
      by (simp add: UArray2b_load_def UArray2_load_def es')
  qed
qed

lemma foldM_record:
  assumes "\<And>c r. (c, r) \<in> set order \<Longrightarrow> \<exists>p. at_fn g c r = Inr p"
  shows "foldM (visit at_fn (\<lambda>c r g' e cl. Inr (g', cl @ [(c, r)]))) order (g, acc) =
           Inr (g, acc @ order)"
  using assms
proof (induction order arbitrary: acc)
  case Nil
  show ?case by simp
next
  case (Cons x xs)
  obtain c r where x: "x = (c, r)" by (cases x)
  obtain p where at: "at_fn g c r = Inr p"
    using Cons.prems [of c r] by (auto simp: x)
  have "foldM (visit at_fn (\<lambda>c r g' e cl. Inr (g', cl @ [(c, r)]))) xs (g, acc @ [(c, r)]) =
      Inr (g, (acc @ [(c, r)]) @ xs)"
    by (rule Cons.IH) (use Cons.prems in auto)
  with at show ?case
    by (simp add: visit_def x)
qed

lemma foldM_record_elems:
  assumes "\<And>c r. (c, r) \<in> set order \<Longrightarrow> at_fn g c r = Inr (ref c r)"
  shows "foldM (visit at_fn (\<lambda>c r g' e cl. Inr (g', cl @ [(c, r, e)]))) order (g, acc) =
           Inr (g, acc @ map (\<lambda>(c, r). (c, r, ref c r)) order)"
  using assms
proof (induction order arbitrary: acc)
  case Nil
  show ?case by simp
next
  case (Cons x xs)
  obtain c r where x: "x = (c, r)" by (cases x)
  have at: "at_fn g c r = Inr (ref c r)"
    using Cons.prems [of c r] by (simp add: x)
  have "foldM (visit at_fn (\<lambda>c r g' e cl. Inr (g', cl @ [(c, r, e)]))) xs
        (g, acc @ [(c, r, ref c r)]) =
      Inr (g, (acc @ [(c, r, ref c r)]) @ map (\<lambda>(c, r). (c, r, ref c r)) xs)"
    by (rule Cons.IH) (use Cons.prems in auto)
  with at show ?case
    by (simp add: visit_def x)
qed

lemma filter_concat_map_key:
  assumes "distinct xs" "a \<in> set xs"
    and "\<And>x e. x \<in> set xs \<Longrightarrow> e \<in> set (f x) \<Longrightarrow> key e = x"
  shows "filter (\<lambda>e. key e = a) (concat (map f xs)) = f a"
  using assms
proof (induction xs)
  case Nil
  then show ?case by simp
next
  case (Cons x xs)
  have keys: "key e = y" if "y \<in> set (x # xs)" "e \<in> set (f y)" for y e
    using Cons.prems(3) that by blast
  show ?case
  proof (cases "x = a")
    case True
    with Cons.prems(1) have "a \<notin> set xs" by simp
    then have "filter (\<lambda>e. key e = a) (concat (map f xs)) = []"
      using keys by (auto simp: filter_empty_conv)
    moreover have "filter (\<lambda>e. key e = a) (f a) = f a"
      using keys [of a] True by (auto simp: filter_id_conv)
    ultimately show ?thesis
      using True by simp
  next
    case False
    with Cons.prems(2) have a: "a \<in> set xs" by simp
    have "filter (\<lambda>e. key e = a) (f x) = []"
      using keys [of x] False by (auto simp: filter_empty_conv)
    moreover have "filter (\<lambda>e. key e = a) (concat (map f xs)) = f a"
      using Cons.prems(1) a keys by (intro Cons.IH) auto
    ultimately show ?thesis by simp
  qed
qed

lemma block_major_order_block:
  assumes bs: "0 < bs" and w: "0 < w" and h: "0 < h"
    and b: "0 \<le> bc" "bc < block_count w bs" "0 \<le> br" "br < block_count h bs"
  shows "filter (\<lambda>(c, r). c div bs = bc \<and> r div bs = br) (block_major_order w h bs) =
           block_cells bs (block_extent w bs bc) (block_extent h bs br) bc br"
proof -
  have "filter (\<lambda>e. (case e of (c, r) \<Rightarrow> (c div bs, r div bs)) = (bc, br))
          (concat (map (\<lambda>(bc, br). block_cells bs (block_extent w bs bc) (block_extent h bs br) bc br)
             (row_major_order (block_count w bs) (block_count h bs)))) =
        (case (bc, br) of (bc, br) \<Rightarrow>
           block_cells bs (block_extent w bs bc) (block_extent h bs br) bc br)"
  proof (rule filter_concat_map_key)
    show "distinct (row_major_order (block_count w bs) (block_count h bs))"
      by (rule distinct_row_major_order)
    show "(bc, br) \<in> set (row_major_order (block_count w bs) (block_count h bs))"
      using b by (simp add: set_row_major_order)
  next
    fix x e
    assume x: "x \<in> set (row_major_order (block_count w bs) (block_count h bs))"
      and e: "e \<in> set (case x of (bc, br) \<Rightarrow>
        block_cells bs (block_extent w bs bc) (block_extent h bs br) bc br)"
    obtain xc xr where xx: "x = (xc, xr)" by (cases x)
    obtain c r where ee: "e = (c, r)" by (cases e)
    from x xx have bd: "0 \<le> xc" "xc < block_count w bs" "0 \<le> xr" "xr < block_count h bs"
      by (simp_all add: set_row_major_order)
    from e obtain i j where i: "0 \<le> i" "i < block_extent w bs xc"
      and j: "0 \<le> j" "j < block_extent h bs xr" and cr: "c = xc * bs + i" "r = xr * bs + j"
      unfolding xx ee by (auto simp: in_block_cells)
    from block_coordinate(3) [OF bs w bd(1,2) i] block_coordinate(3) [OF bs h bd(3,4) j]
    show "(case e of (c, r) \<Rightarrow> (c div bs, r div bs)) = x"
      by (simp add: ee xx cr)
  qed
  moreover have "(\<lambda>e. (case e of (c, r) \<Rightarrow> (c div bs, r div bs)) = (bc, br)) =
      (\<lambda>(c, r). c div bs = bc \<and> r div bs = br)"
    by (auto simp: fun_eq_iff)
  ultimately show ?thesis
    by (simp add: block_major_order_def)
qed

text \<open>
  \<open>C1\<close>.  For positive width, height and element size and a block size between 1 and the
  smaller dimension, \<open>UArray2b_new\<close> succeeds when the square of the block size is an
  \<open>int\<close>, and on the array it returns \<open>UArray2b_map\<close> with the callback that
  records its coordinate returns a list of visits without repetition whose set is
  \<open>[0, width) \<times> [0, height)\<close>, of \<open>width * height\<close> visits: every coordinate exactly once.
  The row-major traversal of the plain array of the same dimensions visits the same set,
  indeed the same multiset.  The visits that fall in block \<open>(bc, br)\<close> are, in order, the
  rows of that block from left to right, the last block-row being \<open>height mod blocksize\<close>
  cells tall when that is not zero and \<open>blocksize\<close> otherwise, and the last block-column
  likewise \<open>width mod blocksize\<close> cells wide.
\<close>

theorem UArray2b_map_visits_each_cell_once:
  fixes w h sz bs :: int
  assumes "0 < w" "0 < h" "0 < sz" "1 \<le> bs" "bs \<le> min w h"
  shows "(bs * bs \<le> INT_MAX \<longrightarrow> (\<exists>g :: ('a::zero) UArray2b_T. UArray2b_new w h sz bs = Inr g))
   \<and> (\<forall>g :: 'a UArray2b_T. UArray2b_new w h sz bs = Inr g \<longrightarrow>
     (\<exists>visits. UArray2b_map g (\<lambda>c r g' e cl. Inr (g', cl @ [(c, r)])) [] = Inr (g, visits)
        \<and> distinct visits
        \<and> set visits = {0..<w} \<times> {0..<h}
        \<and> length visits = nat (w * h)
        \<and> (\<exists>(a :: 'a UArray2_T) row_major.
              UArray2_new w h sz = Inr a
            \<and> UArray2_map_row_major a (\<lambda>c r a' e cl. Inr (a', cl @ [(c, r)])) [] = Inr (a, row_major)
            \<and> set visits = set row_major
            \<and> mset visits = mset row_major)
        \<and> (\<forall>bc br. 0 \<le> bc \<and> bc < block_count w bs \<and> 0 \<le> br \<and> br < block_count h bs \<longrightarrow>
              filter (\<lambda>(c, r). c div bs = bc \<and> r div bs = br) visits =
                concat (map (\<lambda>y. map (\<lambda>x. (bc * bs + x, br * bs + y))
                  [0..(if bc = block_count w bs - 1 \<and> w mod bs \<noteq> 0 then w mod bs else bs) - 1])
                  [0..(if br = block_count h bs - 1 \<and> h mod bs \<noteq> 0 then h mod bs else bs) - 1]))))"
proof (intro conjI allI impI)
  from assms have bs: "0 < bs" "bs \<le> w" "bs \<le> h" by simp_all
  assume "bs * bs \<le> INT_MAX"
  from UArray2b_init_ok [OF assms(1-3) bs this, where 'a = 'a]
  show "\<exists>g :: 'a UArray2b_T. UArray2b_new w h sz bs = Inr g"
    by (simp add: UArray2b_new_def)
next
  fix g :: "'a UArray2b_T"
  assume new: "UArray2b_new w h sz bs = Inr g"
  from assms have bs: "0 < bs" "bs \<le> w" "bs \<le> h" by simp_all
  note wf = UArray2b_new_wf [OF new]
  let ?L = "block_major_order w h bs"
  have setL: "set ?L = {0..<w} \<times> {0..<h}"
    by (rule set_block_major_order [OF bs(1) assms(1,2)])
  have dL: "distinct ?L"
    by (rule distinct_block_major_order [OF bs(1) assms(1,2)])
  have at: "\<exists>p. UArray2b_at g c r = Inr p" if "(c, r) \<in> set ?L" for c r
    using that UArray2b_at_in_bounds(2) [OF wf(1), of c r] by (simp add: setL wf)
  have run: "UArray2b_map g (\<lambda>c r g' e cl. Inr (g', cl @ [(c, r)])) [] = Inr (g, ?L)"
    using foldM_record [of ?L UArray2b_at g "[]"] at
    by (simp add: UArray2b_map_foldM [OF wf(1)] wf)
  have "card (set ?L) = length ?L"
    using dL by (rule distinct_card)
  then have lenL: "length ?L = nat (w * h)"
    using assms(1,2) by (simp add: setL nat_mult_distrib)
  define a :: "'a UArray2_T" where
    "a = \<lparr>ua2_width = w, ua2_height = h, ua2_size = sz, ua2_elems = replicate (nat (w * h)) 0\<rparr>"
  have newa: "UArray2_new w h sz = Inr a"
    using assms(1-3) by (simp add: UArray2_new_def a_def)
  have ata: "\<exists>p. UArray2_at a c r = Inr p" if "(c, r) \<in> set (row_major_order w h)" for c r
    using that by (simp add: set_row_major_order UArray2_at_def a_def)
  have runa: "UArray2_map_row_major a (\<lambda>c r a' e cl. Inr (a', cl @ [(c, r)])) [] =
      Inr (a, row_major_order w h)"
    using foldM_record [of "row_major_order w h" UArray2_at a "[]"] ata
    by (simp add: UArray2_map_row_major_foldM) (simp add: a_def)
  have sets: "set ?L = set (row_major_order w h)"
    by (simp add: setL set_row_major_order)
  then have msets: "mset ?L = mset (row_major_order w h)"
    using dL distinct_row_major_order [of w h] by (simp add: set_eq_iff_mset_eq_distinct)
  have blocks: "filter (\<lambda>(c, r). c div bs = bc \<and> r div bs = br) ?L =
      concat (map (\<lambda>y. map (\<lambda>x. (bc * bs + x, br * bs + y))
        [0..(if bc = block_count w bs - 1 \<and> w mod bs \<noteq> 0 then w mod bs else bs) - 1])
        [0..(if br = block_count h bs - 1 \<and> h mod bs \<noteq> 0 then h mod bs else bs) - 1])"
    if "0 \<le> bc \<and> bc < block_count w bs \<and> 0 \<le> br \<and> br < block_count h bs" for bc br
    using block_major_order_block [OF bs(1) assms(1,2), of bc br] that
    by (simp add: block_cells_def block_extent_def)
  show "\<exists>visits. UArray2b_map g (\<lambda>c r g' e cl. Inr (g', cl @ [(c, r)])) [] = Inr (g, visits)
        \<and> distinct visits
        \<and> set visits = {0..<w} \<times> {0..<h}
        \<and> length visits = nat (w * h)
        \<and> (\<exists>(a :: 'a UArray2_T) row_major.
              UArray2_new w h sz = Inr a
            \<and> UArray2_map_row_major a (\<lambda>c r a' e cl. Inr (a', cl @ [(c, r)])) [] = Inr (a, row_major)
            \<and> set visits = set row_major
            \<and> mset visits = mset row_major)
        \<and> (\<forall>bc br. 0 \<le> bc \<and> bc < block_count w bs \<and> 0 \<le> br \<and> br < block_count h bs \<longrightarrow>
              filter (\<lambda>(c, r). c div bs = bc \<and> r div bs = br) visits =
                concat (map (\<lambda>y. map (\<lambda>x. (bc * bs + x, br * bs + y))
                  [0..(if bc = block_count w bs - 1 \<and> w mod bs \<noteq> 0 then w mod bs else bs) - 1])
                  [0..(if br = block_count h bs - 1 \<and> h mod bs \<noteq> 0 then h mod bs else bs) - 1]))"
    using run dL setL lenL newa runa sets msets blocks by blast
qed

text \<open>
  The theorem at the 10 by 10 array of block size 4: a 3 by 3 block grid, 100 visits, and
  four visits in the last block.
\<close>

theorem UArray2b_map_visits_each_cell_once_witness:
  "(0::int) < 10 \<and> (1::int) \<le> 4 \<and> (4::int) \<le> min 10 10 \<and> block_count 10 4 = 3 \<and>
   (\<exists>g :: nat UArray2b_T. UArray2b_new 10 10 1 4 = Inr g \<and>
     (\<exists>visits. UArray2b_map g (\<lambda>c r g' e cl. Inr (g', cl @ [(c, r)])) [] = Inr (g, visits)
        \<and> distinct visits
        \<and> set visits = {0..<10} \<times> {0..<10}
        \<and> length visits = 100
        \<and> filter (\<lambda>(c, r). c div 4 = 2 \<and> r div 4 = 2) visits =
            [(8, 8), (9, 8), (8, 9), (9, 9)]))"
proof -
  have bc: "block_count 10 4 = 3"
    by (simp add: block_count_div)
  have up: "[0..1] = [0, 1::int]"
    by (simp add: upto_rec1)
  note t = UArray2b_map_visits_each_cell_once [of 10 10 1 4, where 'a = nat]
  from t obtain g :: "nat UArray2b_T" where g: "UArray2b_new 10 10 1 4 = Inr g"
    by (auto simp: INT_MAX_def)
  from t g obtain visits where v:
    "UArray2b_new 10 10 1 4 = Inr g"
    "UArray2b_map g (\<lambda>c r g' e cl. Inr (g', cl @ [(c, r)])) [] = Inr (g, visits)"
    "distinct visits" "set visits = {0..<10} \<times> {0..<10}" "length visits = nat (10 * 10)"
    "\<forall>bc br. 0 \<le> bc \<and> bc < block_count 10 4 \<and> 0 \<le> br \<and> br < block_count 10 4 \<longrightarrow>
        filter (\<lambda>(c, r). c div 4 = bc \<and> r div 4 = br) visits =
          concat (map (\<lambda>y. map (\<lambda>x. (bc * 4 + x, br * 4 + y))
            [0..(if bc = block_count 10 4 - 1 \<and> (10::int) mod 4 \<noteq> 0 then 10 mod 4 else 4) - 1])
            [0..(if br = block_count 10 4 - 1 \<and> (10::int) mod 4 \<noteq> 0 then 10 mod 4 else 4) - 1])"
    by auto
  from v(6) [rule_format, of 2 2]
  have "filter (\<lambda>(c, r). c div 4 = 2 \<and> r div 4 = 2) visits = [(8, 8), (9, 8), (8, 9), (9, 9)]"
    by (simp add: bc up)
  with v(1-5) bc show ?thesis
    by auto
qed

text \<open>
  \<open>C4\<close>.  On a blocked array that satisfies the invariant and at a coordinate in bounds,
  \<open>UArray2b_at\<close> returns the pointer into block \<open>(col / blocksize, row / blocksize)\<close> at
  offset \<open>blocksize * (row mod blocksize) + col mod blocksize\<close>.  A store through it keeps
  the invariant, the same call returns the same pointer afterwards and a load through it
  gives the value stored.  A different coordinate in bounds has a different pointer, and
  the store leaves what is behind that pointer as it was.  The traversal hands each
  callback the pointer that \<open>UArray2b_at\<close> returns for the coordinate of the call, and the
  coordinate is among them.
\<close>

theorem UArray2b_at_resolves_cell:
  fixes g :: "'a UArray2b_T"
  assumes wf: "UArray2b_wf g"
    and c: "0 \<le> col" "col < u2b_width g" and r: "0 \<le> row" "row < u2b_height g"
    and c': "0 \<le> col'" "col' < u2b_width g" and r': "0 \<le> row'" "row' < u2b_height g"
  shows "\<exists>b p visits.
           UArray2_at (u2b_blocks g) (col div u2b_blocksize g) (row div u2b_blocksize g) = Inr b
         \<and> p = (b, u2b_blocksize g * (row mod u2b_blocksize g) + col mod u2b_blocksize g)
         \<and> UArray2b_at g col row = Inr p
         \<and> UArray2b_wf (UArray2b_store g p v)
         \<and> UArray2b_at (UArray2b_store g p v) col row = Inr p
         \<and> UArray2b_load (UArray2b_store g p v) p = v
         \<and> ((col', row') \<noteq> (col, row) \<longrightarrow>
              (\<exists>p'. UArray2b_at g col' row' = Inr p' \<and> p' \<noteq> p
                 \<and> UArray2b_at (UArray2b_store g p v) col' row' = Inr p'
                 \<and> UArray2b_load (UArray2b_store g p v) p' = UArray2b_load g p'))
         \<and> UArray2b_map g (\<lambda>c r g' e cl. Inr (g', cl @ [(c, r, e)])) [] = Inr (g, visits)
         \<and> (col, row, p) \<in> set visits
         \<and> (\<forall>(c, r, e) \<in> set visits. UArray2b_at g c r = Inr e)
         \<and> (\<forall>f cl. UArray2b_map g f cl =
               foldM (visit UArray2b_at f)
                 (block_major_order (u2b_width g) (u2b_height g) (u2b_blocksize g)) (g, cl))"
proof -
  define p where "p = UArray2b_cell g col row"
  define p' where "p' = UArray2b_cell g col' row'"
  let ?L = "block_major_order (u2b_width g) (u2b_height g) (u2b_blocksize g)"
  define visits where "visits = map (\<lambda>(c, r). (c, r, UArray2b_cell g c r)) ?L"
  from wf have pos: "0 < u2b_blocksize g" "0 < u2b_width g" "0 < u2b_height g"
    by (simp_all add: UArray2b_wf_def)
  note at = UArray2b_at_in_bounds [OF wf c r, folded p_def]
  note at' = UArray2b_at_in_bounds(2) [OF wf c' r', folded p'_def]
  note b = UArray2b_cell_bounds(9-12) [OF wf c r, folded p_def]
  note b' = UArray2b_cell_bounds(9-12) [OF wf c' r', folded p'_def]
  note st = UArray2b_store_laws [OF wf b, where v = v, unfolded prod.collapse]
  have pe: "p = (fst p, u2b_blocksize g * (row mod u2b_blocksize g) + col mod u2b_blocksize g)"
    by (simp add: p_def UArray2b_cell_def)
  have at_st: "UArray2b_at (UArray2b_store g p v) col row = Inr p"
    using UArray2b_at_in_bounds(2) [OF st(1), of col row] c r by (simp add: p_def)
  have at_st': "UArray2b_at (UArray2b_store g p v) col' row' = Inr p'"
    using UArray2b_at_in_bounds(2) [OF st(1), of col' row'] c' r' by (simp add: p'_def)
  have other: "p' \<noteq> p \<and> UArray2b_load (UArray2b_store g p v) p' = UArray2b_load g p'"
    if ne: "(col', row') \<noteq> (col, row)"
  proof -
    have "p' \<noteq> p"
      using UArray2b_cell_inj [OF wf c r c' r'] ne by (auto simp: p_def p'_def)
    moreover from this have "(fst p', snd p') \<noteq> p" by simp
    from st(3) [OF b'(1,2,3,4) this] have "UArray2b_load (UArray2b_store g p v) p' = UArray2b_load g p'"
      by simp
    ultimately show ?thesis by simp
  qed
  have setL: "set ?L = {0..<u2b_width g} \<times> {0..<u2b_height g}"
    by (rule set_block_major_order [OF pos])
  have atL: "UArray2b_at g x y = Inr (UArray2b_cell g x y)" if "(x, y) \<in> set ?L" for x y
    using that UArray2b_at_in_bounds(2) [OF wf, of x y] by (simp add: setL)
  have run: "UArray2b_map g (\<lambda>c r g' e cl. Inr (g', cl @ [(c, r, e)])) [] = Inr (g, visits)"
    using foldM_record_elems [of ?L UArray2b_at g "UArray2b_cell g" "[]"] atL
    by (simp add: UArray2b_map_foldM [OF wf] visits_def)
  have "(col, row) \<in> set ?L"
    using c r by (simp add: setL)
  then have mem: "(col, row, p) \<in> set visits"
    by (force simp: visits_def p_def)
  have all: "\<forall>(x, y, e) \<in> set visits. UArray2b_at g x y = Inr e"
    using atL by (auto simp: visits_def)
  show ?thesis
    using at(1) pe at(2) st(1) at_st st(2) at' at_st' other run mem all UArray2b_map_foldM [OF wf]
    by (intro exI [of _ "fst p"] exI [of _ p] exI [of _ visits]) auto
qed

text \<open>
  The theorem at the 5 by 3 array of block size 2, for the cell \<open>(4, 2)\<close> in the clipped
  corner block and the cell \<open>(0, 0)\<close>.
\<close>

theorem UArray2b_at_resolves_cell_witness:
  "\<exists>g :: nat UArray2b_T. UArray2b_new 5 3 1 2 = Inr g \<and> UArray2b_wf g \<and>
     (\<exists>visits.
         UArray2_at (u2b_blocks g) 2 1 = Inr 5
       \<and> UArray2b_at g 4 2 = Inr (5, 0)
       \<and> UArray2b_at (UArray2b_store g (5, 0) 7) 4 2 = Inr (5, 0)
       \<and> UArray2b_load (UArray2b_store g (5, 0) 7) (5, 0) = 7
       \<and> UArray2b_at g 0 0 = Inr (0, 0)
       \<and> UArray2b_load (UArray2b_store g (5, 0) 7) (0, 0) = UArray2b_load g (0, 0)
       \<and> UArray2b_map g (\<lambda>c r g' e cl. Inr (g', cl @ [(c, r, e)])) [] = Inr (g, visits)
       \<and> (4, 2, (5, 0)) \<in> set visits)"
proof -
  obtain g :: "nat UArray2b_T" where g: "UArray2b_new 5 3 1 2 = Inr g"
    by (simp add: UArray2b_new_def UArray2b_init_ok INT_MAX_def)
  note wf = UArray2b_new_wf [OF g]
  have bw: "ua2_width (u2b_blocks g) = 3"
    using wf(1) by (simp add: UArray2b_wf_def wf(2-4) block_count_div)
  from UArray2b_at_resolves_cell [OF wf(1), of 4 2 0 0 7]
  obtain b p visits where v:
    "UArray2_at (u2b_blocks g) (4 div 2) (2 div 2) = Inr b" "p = (b, 2 * (2 mod 2) + 4 mod 2)"
    "UArray2b_at g 4 2 = Inr p" "UArray2b_at (UArray2b_store g p 7) 4 2 = Inr p"
    "UArray2b_load (UArray2b_store g p 7) p = 7"
    "\<exists>p'. UArray2b_at g 0 0 = Inr p' \<and> p' \<noteq> p
           \<and> UArray2b_load (UArray2b_store g p 7) p' = UArray2b_load g p'"
    "UArray2b_map g (\<lambda>c r g' e cl. Inr (g', cl @ [(c, r, e)])) [] = Inr (g, visits)"
    "(4, 2, p) \<in> set visits"
    unfolding wf(2-4) by auto
  from v(1) have b: "b = 5"
    by (simp add: UArray2_at_def bw split: if_splits)
  have z: "UArray2b_at g 0 0 = Inr (0, 0)"
    using UArray2b_at_in_bounds(2) [OF wf(1), of 0 0] by (simp add: wf UArray2b_cell_def)
  from v b z g wf(1) show ?thesis
    by (intro exI [of _ g] exI [of _ visits]) auto
qed

section \<open>Random access with a negative column\<close>

lemma UArray2b_at_above_range:
  assumes "u2b_width g \<le> col \<or> u2b_height g \<le> row"
  shows "UArray2b_at g col row = Inl Assert_Failed"
  using assms by (auto simp: UArray2b_at_def)

text \<open>
  \<open>C7\<close>.  The assertion of \<open>UArray2b_at\<close> bounds the column and the row from above only.
  On the 4 by 4 array of block size 2, the access at column \<open>-1\<close> and row 1 passes the
  assertion, truncating division sends it to block \<open>(0, 0)\<close>, and the offset
  \<open>2 * 1 + (-1)\<close> is in range: the call returns the pointer to the cell at column 1 and
  row 0 instead of failing.
\<close>

theorem UArray2b_at_negative_col_no_error:
  "\<exists>g :: nat UArray2b_T. UArray2b_new 4 4 1 2 = Inr g \<and>
     UArray2b_at g (- 1) 1 = Inr (0, 1) \<and> UArray2b_at g 1 0 = Inr (0, 1)"
  by (simp add: UArray2b_new_def UArray2b_init_ok INT_MAX_def init_blocks_def block_count_div
      UArray2b_at_def UArray2_at_def UArray2_load_def Let_def
      signed_divide_int_def signed_modulo_int_def)

section \<open>The capability table of the plain array and the size of the destination\<close>

text \<open>
  \<open>C5\<close>.  For a source image of width \<open>W\<close> and height \<open>H\<close>, \<open>create_image\<close> asks the suite
  for an array of width \<open>H\<close> and height \<open>W\<close> (and records the swapped dimensions in the
  image) for rotate 90, rotate 270 and transpose, and for an array of width \<open>W\<close> and height
  \<open>H\<close> (leaving the image as it is) for rotate 0, rotate 180 and the two flips.
\<close>

theorem create_image_dimensions:
  fixes methods :: "('g, 'r, 'cl) A2Methods_T"
  defines "swapped ppm \<equiv>
      (case m_new methods (ppm_height ppm) (ppm_width ppm) sizeof_Pnm_rgb of
         Inl e \<Rightarrow> Inl e
       | Inr img \<Rightarrow> Inr (ppm\<lparr>ppm_width := ppm_height ppm, ppm_height := ppm_width ppm\<rparr>, img))"
    and "unchanged ppm \<equiv>
      (case m_new methods (ppm_width ppm) (ppm_height ppm) sizeof_Pnm_rgb of
         Inl e \<Rightarrow> Inl e
       | Inr img \<Rightarrow> Inr (ppm, img))"
  shows "create_image ppm methods ROTATE 90 = swapped ppm
       \<and> create_image ppm methods ROTATE 270 = swapped ppm
       \<and> create_image ppm methods TRANSPOSE mag = swapped ppm
       \<and> create_image ppm methods ROTATE 0 = unchanged ppm
       \<and> create_image ppm methods ROTATE 180 = unchanged ppm
       \<and> create_image ppm methods FLIP HORIZ = unchanged ppm
       \<and> create_image ppm methods FLIP VERT = unchanged ppm"
  by (simp add: create_image_def swapped_def unchanged_def ROTATE_def FLIP_def TRANSPOSE_def
      HORIZ_def VERT_def Let_def)

text \<open>
  \<open>C10\<close>.  In the suite of the plain array the default traversal is the row-major one in
  both callback families: the slots hold the same function, so a traversal through the
  default slot is \<open>UArray2_map_row_major\<close>, which visits the coordinates in row-major order.
\<close>

theorem plain_default_is_row_major:
  fixes a :: "('a::zero) UArray2_T"
    and f :: "('a UArray2_T, int, 'cl) applyfun"
    and small_f :: "('a UArray2_T, int, 'cl) smallapplyfun"
  defines "S \<equiv> uarray2_methods_plain_struct :: ('a UArray2_T, int, 'cl) A2Methods_T"
  shows "m_map_default S = m_map_row_major S
       \<and> m_small_map_default S = m_small_map_row_major S
       \<and> m_map_default S = Some map_row_major
       \<and> m_small_map_default S = Some small_map_row_major
       \<and> the (m_map_default S) a f cl = UArray2_map_row_major a f cl
       \<and> the (m_map_default S) a f cl =
           foldM (visit UArray2_at f) (row_major_order (ua2_width a) (ua2_height a)) (a, cl)
       \<and> the (m_small_map_default S) a small_f cl = small_map_row_major a small_f cl"
  by (simp add: S_def uarray2_methods_plain_struct_def map_row_major_def
      UArray2_map_row_major_foldM)

section \<open>The argument loop of main\<close>

lemma SET_METHODS_absent:
  assumes "MAP B = None"
  shows "SET_METHODS (Some B) MAP WHAT argv0 vars =
           Inl (Exit_Failure (argv0 @ '' does not support '' @ WHAT @ ''mapping'' @ [CHR 0x0A]))"
  using assms by (simp add: SET_METHODS_def)

lemma SET_METHODS_Inr:
  assumes "SET_METHODS METHODS MAP WHAT argv0 vars = Inr vars'"
  shows "\<exists>methods mapf. METHODS = Some methods \<and> MAP methods = Some mapf \<and>
           vars' = vars\<lparr>v_methods := methods, v_map := Some mapf\<rparr>"
  using assms by (auto simp: SET_METHODS_def split: option.splits)

lemma main_loop_invariant:
  assumes "main_loop blocked strtol argv0 args vars = Inr vars'"
    and "P vars"
    and sm: "\<And>v METHODS MAP WHAT v'. P v \<Longrightarrow> SET_METHODS METHODS MAP WHAT argv0 v = Inr v' \<Longrightarrow>
           (METHODS = uarray2_methods_plain \<and> (MAP = m_map_row_major \<or> MAP = m_map_col_major))
            \<or> (METHODS = blocked \<and> MAP = m_map_block_major) \<Longrightarrow> P v'"
    and rot: "\<And>v mag. P v \<Longrightarrow> mag = 0 \<or> mag = 90 \<or> mag = 180 \<or> mag = 270 \<Longrightarrow>
           P (v\<lparr>v_magnitude := mag, v_transform_type := ROTATE\<rparr>)"
    and flip: "\<And>v mag. P v \<Longrightarrow> mag = HORIZ \<or> mag = VERT \<Longrightarrow>
           P (v\<lparr>v_magnitude := mag, v_transform_type := FLIP\<rparr>)"
    and tr: "\<And>v. P v \<Longrightarrow> P (v\<lparr>v_transform_type := TRANSPOSE\<rparr>)"
    and tm: "\<And>v n. P v \<Longrightarrow> P (v\<lparr>v_time_file_name := Some n\<rparr>)"
    and fn: "\<And>v n. P v \<Longrightarrow> P (v\<lparr>v_filename := Some n\<rparr>)"
  shows "P vars'"
  using assms(1,2)
proof (induction args arbitrary: vars rule: length_induct)
  case (1 args)
  note prems = "1.prems"
  have IH: "P vars'" if "length ys < length args" "main_loop blocked strtol argv0 ys v = Inr vars'" "P v"
    for ys v
    using "1.IH" that by blast
  show ?case
  proof (cases args)
    case Nil
    with prems show ?thesis by simp
  next
    case (Cons arg rest)
    note loop = prems(1) [unfolded Cons]
    have short: "length rest < length args"
      by (simp add: Cons)
    consider (is_row) "arg = ''-row-major''"
      | (is_col) "arg \<noteq> ''-row-major''" "arg = ''-col-major''"
      | (is_blk) "arg \<noteq> ''-row-major''" "arg \<noteq> ''-col-major''" "arg = ''-block-major''"
      | (is_rot) "arg = ''-rotate''"
      | (is_flip) "arg = ''-flip''"
      | (is_tr) "arg = ''-transpose''"
      | (is_tm) "arg = ''-time''"
      | (is_other) "arg \<noteq> ''-row-major''" "arg \<noteq> ''-col-major''" "arg \<noteq> ''-block-major''"
          "arg \<noteq> ''-rotate''" "arg \<noteq> ''-flip''" "arg \<noteq> ''-transpose''" "arg \<noteq> ''-time''"
      by blast
    then show ?thesis
    proof cases
      case is_row
      with loop obtain v where v:
        "SET_METHODS uarray2_methods_plain m_map_row_major ''row-major'' argv0 vars = Inr v"
        "main_loop blocked strtol argv0 rest v = Inr vars'"
        by (auto split: sum.splits)
      have "P v" using sm [OF prems(2) v(1)] by simp
      with IH [OF short v(2)] show ?thesis .
    next
      case is_col
      with loop obtain v where v:
        "SET_METHODS uarray2_methods_plain m_map_col_major ''column-major'' argv0 vars = Inr v"
        "main_loop blocked strtol argv0 rest v = Inr vars'"
        by (auto split: sum.splits)
      have "P v" using sm [OF prems(2) v(1)] by simp
      with IH [OF short v(2)] show ?thesis .
    next
      case is_blk
      with loop obtain v where v:
        "SET_METHODS blocked m_map_block_major ''block-major'' argv0 vars = Inr v"
        "main_loop blocked strtol argv0 rest v = Inr vars'"
        by (auto split: sum.splits)
      have "P v" using sm [OF prems(2) v(1)] by simp
      with IH [OF short v(2)] show ?thesis .
    next
      case is_rot
      with loop obtain number rest' mag where r: "rest = number # rest'"
        "mag = 0 \<or> mag = 90 \<or> mag = 180 \<or> mag = 270"
        "main_loop blocked strtol argv0 rest'
           (vars\<lparr>v_magnitude := mag, v_transform_type := ROTATE\<rparr>) = Inr vars'"
        by (auto simp: usage_def split: list.splits prod.splits if_splits)
      have "length rest' < length args"
        by (simp add: Cons r(1))
      from IH [OF this r(3) rot [OF prems(2) r(2)]] show ?thesis .
    next
      case is_flip
      with loop obtain endptr rest' mag where r: "rest = endptr # rest'"
        "mag = HORIZ \<or> mag = VERT"
        "main_loop blocked strtol argv0 rest'
           (vars\<lparr>v_magnitude := mag, v_transform_type := FLIP\<rparr>) = Inr vars'"
        by (auto simp: usage_def split: list.splits if_splits)
      have "length rest' < length args"
        by (simp add: Cons r(1))
      from IH [OF this r(3) flip [OF prems(2) r(2)]] show ?thesis .
    next
      case is_tr
      with loop have
        "main_loop blocked strtol argv0 rest (vars\<lparr>v_transform_type := TRANSPOSE\<rparr>) = Inr vars'"
        by simp
      from IH [OF short this tr [OF prems(2)]] show ?thesis .
    next
      case is_tm
      with loop obtain name rest' where r: "rest = name # rest'"
        "main_loop blocked strtol argv0 rest' (vars\<lparr>v_time_file_name := Some name\<rparr>) = Inr vars'"
        by (auto simp: usage_def split: list.splits)
      have "length rest' < length args"
        by (simp add: Cons r(1))
      from IH [OF this r(2) tm [OF prems(2)]] show ?thesis .
    next
      case is_other
      with loop have
        "main_loop blocked strtol argv0 rest (vars\<lparr>v_filename := Some arg\<rparr>) = Inr vars'"
        by (auto simp: usage_def split: if_splits)
      from IH [OF short this fn [OF prems(2)]] show ?thesis .
    qed
  qed
qed

lemma main_loop_magnitude_ok:
  assumes "main_loop blocked strtol argv0 args vars = Inr vars'"
    and "magnitude_ok (v_transform_type vars) (v_magnitude vars)"
  shows "magnitude_ok (v_transform_type vars') (v_magnitude vars')"
proof (rule main_loop_invariant [OF assms(1),
      where P = "\<lambda>v. magnitude_ok (v_transform_type v) (v_magnitude v)"])
  show "magnitude_ok (v_transform_type vars) (v_magnitude vars)" by fact
qed (auto simp: magnitude_ok_def dest!: SET_METHODS_Inr)

lemma main_loop_plain_only:
  fixes B :: "(('a::zero) UArray2_T, int, 'cl) A2Methods_T"
  assumes "main_loop (Some B) strtol argv0 args vars = Inr vars'"
    and "m_map_block_major B = None"
    and "v_methods vars = uarray2_methods_plain_struct"
    and "v_map vars = Some map_row_major \<or> v_map vars = Some map_col_major"
  shows "v_methods vars' = uarray2_methods_plain_struct \<and>
         (v_map vars' = Some map_row_major \<or> v_map vars' = Some map_col_major)"
proof (rule main_loop_invariant [OF assms(1),
      where P = "\<lambda>v. v_methods v = uarray2_methods_plain_struct \<and>
         (v_map v = Some map_row_major \<or> v_map v = Some map_col_major)"])
  show "v_methods vars = uarray2_methods_plain_struct \<and>
         (v_map vars = Some map_row_major \<or> v_map vars = Some map_col_major)"
    using assms(3,4) by simp
next
  fix v :: "('a UArray2_T, int, 'cl) main_vars" and METHODS MAP WHAT v'
  assume "SET_METHODS METHODS MAP WHAT argv0 v = Inr v'"
    and "METHODS = uarray2_methods_plain \<and> (MAP = m_map_row_major \<or> MAP = m_map_col_major) \<or>
       METHODS = Some B \<and> MAP = m_map_block_major"
  then show "v_methods v' = uarray2_methods_plain_struct \<and>
         (v_map v' = Some map_row_major \<or> v_map v' = Some map_col_major)"
    using assms(2)
    by (auto dest!: SET_METHODS_Inr simp: uarray2_methods_plain_def uarray2_methods_plain_struct_def)
qed auto

text \<open>
  \<open>C8\<close>.  Both block-major slots of the plain suite are absent.  Whenever the suite that
  \<open>-block-major\<close> selects has no block-major traversal, the argument loop stops at that
  argument with the diagnostic and \<open>exit(1)\<close>, and so does \<open>main\<close> when the argument comes
  first; and every run of the loop that completes has left the plain suite and one of its
  two traversals in \<open>methods\<close> and \<open>map\<close>, so no later call goes through the absent slot.
\<close>

theorem block_major_absent_exits:
  fixes B :: "(('a::zero) UArray2_T, int, 'a UArray2_T result) A2Methods_T"
    and vars :: "('a UArray2_T, int, 'a UArray2_T result) main_vars"
  assumes "m_map_block_major B = None"
  shows "m_map_block_major (uarray2_methods_plain_struct :: ('a UArray2_T, int, 'cl) A2Methods_T) = None
       \<and> m_small_map_block_major (uarray2_methods_plain_struct :: ('a UArray2_T, int, 'cl) A2Methods_T)
           = None
       \<and> main_loop (Some B) strtol argv0 (''-block-major'' # rest) vars =
           Inl (Exit_Failure (argv0 @ '' does not support block-majormapping'' @ [CHR 0x0A]))
       \<and> main (Some B) strtol Pnm_ppmread argv0 (''-block-major'' # rest) =
           Inl (Exit_Failure (argv0 @ '' does not support block-majormapping'' @ [CHR 0x0A]))
       \<and> (\<forall>args vars'. main_loop (Some B) strtol argv0 args main_vars0 = Inr vars' \<longrightarrow>
             v_methods vars' = uarray2_methods_plain_struct \<and>
             (v_map vars' = Some map_row_major \<or> v_map vars' = Some map_col_major))"
proof -
  have step: "main_loop (Some B) strtol argv0 (''-block-major'' # rest) v =
           Inl (Exit_Failure (argv0 @ '' does not support block-majormapping'' @ [CHR 0x0A]))"
    for v :: "('a UArray2_T, int, 'a UArray2_T result) main_vars"
    using assms by (simp add: SET_METHODS_absent)
  have "main (Some B) strtol Pnm_ppmread argv0 (''-block-major'' # rest) =
           Inl (Exit_Failure (argv0 @ '' does not support block-majormapping'' @ [CHR 0x0A]))"
    unfolding main_def uarray2_methods_plain_def
    by (simp add: uarray2_methods_plain_struct_def step del: main_loop.simps)
  moreover have "v_methods vars' = uarray2_methods_plain_struct \<and>
             (v_map vars' = Some map_row_major \<or> v_map vars' = Some map_col_major)"
    if "main_loop (Some B) strtol argv0 args main_vars0 = Inr vars'" for args vars'
    using main_loop_plain_only [OF that assms] by (simp add: main_vars0_def)
  ultimately show ?thesis
    using step by (simp add: uarray2_methods_plain_struct_def del: main_loop.simps)
qed

text \<open>
  The theorem at the plain suite itself, whose block-major slot is absent, standing for
  \<open>uarray2_methods_blocked\<close>.
\<close>

theorem block_major_absent_exits_witness:
  "m_map_block_major
     (uarray2_methods_plain_struct :: (nat UArray2_T, int, nat UArray2_T result) A2Methods_T) = None
   \<and> main (Some uarray2_methods_plain_struct) (\<lambda>s. (0, [])) (\<lambda>name methods. Inl Assert_Failed)
        ''ppmtrans'' [''-block-major'', ''-rotate'', ''90''] =
      (Inl (Exit_Failure (''ppmtrans does not support block-majormapping'' @ [CHR 0x0A]))
         :: error + nat UArray2_T Pnm_ppm)"
  using block_major_absent_exits
    [of "uarray2_methods_plain_struct :: (nat UArray2_T, int, nat UArray2_T result) A2Methods_T"
        "\<lambda>s. (0, [])" "''ppmtrans''" "[''-rotate'', ''90'']" _ "\<lambda>name methods. Inl Assert_Failed"]
  by (simp add: uarray2_methods_plain_struct_def del: main_loop.simps)

text \<open>
  \<open>C9\<close>.  With a magnitude among 0, 90, 180 and 270, \<open>rotate_map\<close> writes through the
  pointer that one of its branches took from \<open>at\<close>, and so does \<open>flip_map\<close> with the
  magnitude \<open>HORIZ\<close> or \<open>VERT\<close>; with any other magnitude no branch assigns the pointer and
  the write goes through an unassigned pointer.  \<open>main\<close> hands to \<open>transform\<close> the transform
  type and the magnitude that the argument loop leaves, and whenever the loop completes
  these are a rotation by 0, 90, 180 or 270, a flip with \<open>HORIZ\<close> or \<open>VERT\<close>, or a
  transposition.
\<close>

theorem callbacks_never_write_unassigned:
  fixes M :: "('g, 'r, 'g result) A2Methods_T" and mem :: "('g, 'r, 'a) A2Memory"
    and blocked :: "(('b::zero) UArray2_T, int, 'b UArray2_T result) A2Methods_T option"
  shows "(magnitude cl = 0 \<or> magnitude cl = 90 \<or> magnitude cl = 180 \<or> magnitude cl = 270 \<longrightarrow>
            (\<exists>x y. rotate_map M mem col row src ptr cl =
               assign_pixel mem src ptr cl (Some (m_at M (destination_map cl) x y))))
       \<and> (magnitude cl = HORIZ \<or> magnitude cl = VERT \<longrightarrow>
            (\<exists>x y. flip_map M mem col row src ptr cl =
               assign_pixel mem src ptr cl (Some (m_at M (destination_map cl) x y))))
       \<and> (\<not> (magnitude cl = 0 \<or> magnitude cl = 90 \<or> magnitude cl = 180 \<or> magnitude cl = 270) \<longrightarrow>
            rotate_map M mem col row src ptr cl = Inl Uninitialized_Pointer)
       \<and> (\<not> (magnitude cl = HORIZ \<or> magnitude cl = VERT) \<longrightarrow>
            flip_map M mem col row src ptr cl = Inl Uninitialized_Pointer)
       \<and> main blocked strtol Pnm_ppmread argv0 args =
           (case main_loop blocked strtol argv0 args main_vars0 of
              Inl e \<Rightarrow> Inl e
            | Inr vars \<Rightarrow>
                (case process_file Pnm_ppmread (v_filename vars) (v_methods vars) of
                   Inl e \<Rightarrow> Inl e
                 | Inr ppm \<Rightarrow>
                     transform ppm (v_methods vars) UArray2_memory (v_map vars)
                       (v_transform_type vars) (v_magnitude vars)))
       \<and> (main_loop blocked strtol argv0 args main_vars0 = Inr vars' \<longrightarrow>
            (v_transform_type vars' = ROTATE \<and>
               (v_magnitude vars' = 0 \<or> v_magnitude vars' = 90 \<or> v_magnitude vars' = 180
                \<or> v_magnitude vars' = 270))
          \<or> (v_transform_type vars' = FLIP \<and>
               (v_magnitude vars' = HORIZ \<or> v_magnitude vars' = VERT))
          \<or> v_transform_type vars' = TRANSPOSE)"
proof -
  have "magnitude_ok (v_transform_type vars') (v_magnitude vars')"
    if "main_loop blocked strtol argv0 args main_vars0 = Inr vars'"
    using main_loop_magnitude_ok [OF that] by (simp add: main_vars0_def magnitude_ok_def)
  moreover have "main blocked strtol Pnm_ppmread argv0 args =
           (case main_loop blocked strtol argv0 args main_vars0 of
              Inl e \<Rightarrow> Inl e
            | Inr vars \<Rightarrow>
                (case process_file Pnm_ppmread (v_filename vars) (v_methods vars) of
                   Inl e \<Rightarrow> Inl e
                 | Inr ppm \<Rightarrow>
                     transform ppm (v_methods vars) UArray2_memory (v_map vars)
                       (v_transform_type vars) (v_magnitude vars)))"
    by (simp add: main_def main_vars0_def uarray2_methods_plain_def
        uarray2_methods_plain_struct_def)
  ultimately show ?thesis
    by (auto simp: rotate_map_def flip_map_def Let_def assign_pixel_def magnitude_ok_def
        HORIZ_def VERT_def)
qed

text \<open>
  The theorem at a rotation by 90 on a one-pixel image and at the command line
  \<open>-flip vertical -rotate 90\<close>.
\<close>

theorem callbacks_never_write_unassigned_witness:
  "magnitude \<lparr>destination_map = \<lparr>ua2_width = 1, ua2_height = 1, ua2_size = 12, ua2_elems = [0::nat]\<rparr>,
              magnitude = 90\<rparr> = 90
   \<and> (\<exists>x y. rotate_map (uarray2_methods_plain_struct
                  :: (nat UArray2_T, int, nat UArray2_T result) A2Methods_T) UArray2_memory 0 0
              \<lparr>ua2_width = 1, ua2_height = 1, ua2_size = 12, ua2_elems = [7::nat]\<rparr> 0
              \<lparr>destination_map = \<lparr>ua2_width = 1, ua2_height = 1, ua2_size = 12, ua2_elems = [0]\<rparr>,
               magnitude = 90\<rparr> =
            assign_pixel UArray2_memory
              \<lparr>ua2_width = 1, ua2_height = 1, ua2_size = 12, ua2_elems = [7]\<rparr> 0
              \<lparr>destination_map = \<lparr>ua2_width = 1, ua2_height = 1, ua2_size = 12, ua2_elems = [0]\<rparr>,
               magnitude = 90\<rparr>
              (Some (m_at (uarray2_methods_plain_struct
                  :: (nat UArray2_T, int, nat UArray2_T result) A2Methods_T)
                 \<lparr>ua2_width = 1, ua2_height = 1, ua2_size = 12, ua2_elems = [0]\<rparr> x y)))
   \<and> main_loop (None :: (nat UArray2_T, int, nat UArray2_T result) A2Methods_T option)
        (\<lambda>s. if s = ''90'' then (90, []) else (0, s)) ''ppmtrans'' [''-flip'', ''vertical'', ''-rotate'', ''90'']
        main_vars0 =
      Inr (main_vars0\<lparr>v_magnitude := 90, v_transform_type := ROTATE\<rparr>)
   \<and> v_transform_type (main_vars0\<lparr>v_magnitude := 90, v_transform_type := ROTATE\<rparr>
         :: (nat UArray2_T, int, nat UArray2_T result) main_vars) = ROTATE
   \<and> v_magnitude (main_vars0\<lparr>v_magnitude := 90, v_transform_type := ROTATE\<rparr>
         :: (nat UArray2_T, int, nat UArray2_T result) main_vars) = 90"
  using callbacks_never_write_unassigned
    [where cl = "\<lparr>destination_map = \<lparr>ua2_width = 1, ua2_height = 1, ua2_size = 12, ua2_elems = [0::nat]\<rparr>,
              magnitude = 90\<rparr>"
       and M = "uarray2_methods_plain_struct :: (nat UArray2_T, int, nat UArray2_T result) A2Methods_T"
       and mem = UArray2_memory and col = 0 and row = 0 and ptr = 0
       and src = "\<lparr>ua2_width = 1, ua2_height = 1, ua2_size = 12, ua2_elems = [7::nat]\<rparr>"
       and blocked = "None :: (nat UArray2_T, int, nat UArray2_T result) A2Methods_T option"
       and strtol = "\<lambda>s. if s = ''90'' then (90, []) else (0, s)" and ?argv0.0 = "''ppmtrans''"
       and args = "[''-flip'', ''vertical'', ''-rotate'', ''90'']"
       and vars' = "main_vars0\<lparr>v_magnitude := 90, v_transform_type := ROTATE\<rparr>"]
  by (simp add: main_vars0_def)

section \<open>The callbacks on a lawful suite\<close>

lemma A2_lawful_at:
  assumes "A2_lawful M mem ok" "ok g" "in_bounds M g col row"
  obtains p where "m_at M g col row = Inr p"
  using assms unfolding A2_lawful_def by blast

lemma A2_lawful_store:
  assumes "A2_lawful M mem ok" "ok g" "in_bounds M g col row" "m_at M g col row = Inr p"
  shows "ok (mem_store mem g p v)"
    and "m_width M (mem_store mem g p v) = m_width M g"
    and "m_height M (mem_store mem g p v) = m_height M g"
    and "in_bounds M g c r \<Longrightarrow> A2_read M mem (mem_store mem g p v) c r =
              (if c = col \<and> r = row then Inr v else A2_read M mem g c r)"
  using assms unfolding A2_lawful_def by blast+

lemma assign_pixel_copies:
  assumes law: "A2_lawful M mem ok" and ok: "ok (destination_map cl)"
    and ib: "in_bounds M (destination_map cl) x y"
  shows "copies_to M mem ok (assign_pixel mem src ptr cl (Some (m_at M (destination_map cl) x y)))
           src ptr cl x y"
proof -
  obtain d where d: "m_at M (destination_map cl) x y = Inr d"
    using A2_lawful_at [OF law ok ib] .
  note st = A2_lawful_store [OF law ok ib d, where v = "mem_load mem src ptr"]
  show ?thesis
    unfolding copies_to_def
  proof (intro exI conjI allI impI)
    show "assign_pixel mem src ptr cl (Some (m_at M (destination_map cl) x y)) =
        Inr (src, cl\<lparr>destination_map := mem_store mem (destination_map cl) d (mem_load mem src ptr)\<rparr>)"
      by (simp add: assign_pixel_def d)
    show "A2_read M mem (mem_store mem (destination_map cl) d (mem_load mem src ptr)) x y =
        Inr (mem_load mem src ptr)"
      using st(4) [OF ib] by simp
  next
    fix c r
    assume "in_bounds M (destination_map cl) c r \<and> (c, r) \<noteq> (x, y)"
    then show "A2_read M mem (mem_store mem (destination_map cl) d (mem_load mem src ptr)) c r =
        A2_read M mem (destination_map cl) c r"
      using st(4) [of c r] by auto
  qed (rule st)+
qed

lemma plain_slots [simp]:
  "m_new uarray2_methods_plain_struct = UArray2_new"
  "m_width uarray2_methods_plain_struct = ua2_width"
  "m_height uarray2_methods_plain_struct = ua2_height"
  "m_at uarray2_methods_plain_struct = UArray2_at"
  by (simp_all add: uarray2_methods_plain_struct_def fun_eq_iff new_def width_def height_def
      at_plain_def UArray2_width_def UArray2_height_def)

lemma UArray2_read_store:
  assumes wf: "UArray2_wf a"
    and a: "0 \<le> col" "col < ua2_width a" "0 \<le> row" "row < ua2_height a"
    and b: "0 \<le> c" "c < ua2_width a" "0 \<le> r" "r < ua2_height a"
  shows "UArray2_load (UArray2_store a (row * ua2_width a + col) v) (r * ua2_width a + c) =
           (if c = col \<and> r = row then v else UArray2_load a (r * ua2_width a + c))"
proof -
  let ?w = "ua2_width a"
  note p = flat_index_bound [OF a]
  note q = flat_index_bound [OF b]
  have len: "nat (row * ?w + col) < length (ua2_elems a)" "nat (r * ?w + c) < length (ua2_elems a)"
    using wf p q by (simp_all add: UArray2_wf_def)
  have eq: "nat (row * ?w + col) = nat (r * ?w + c) \<longleftrightarrow> c = col \<and> r = row"
    using flat_index_inj [OF a(1,2) b(1,2), of row r] p(1) q(1)
    by (auto simp: eq_nat_nat_iff)
  show ?thesis
    using len eq by (simp add: UArray2_load_def UArray2_store_def nth_list_update)
qed

lemma plain_lawful:
  "A2_lawful (uarray2_methods_plain_struct :: (('a::zero) UArray2_T, int, 'cl) A2Methods_T)
     UArray2_memory UArray2_wf"
  unfolding A2_lawful_def
proof (intro conjI allI impI)
  fix w h sz :: int
  assume "0 < w \<and> 0 < h \<and> 0 < sz"
  then show "\<exists>g :: 'a UArray2_T.
      m_new (uarray2_methods_plain_struct :: ('a UArray2_T, int, 'cl) A2Methods_T) w h sz = Inr g \<and>
      UArray2_wf g \<and>
      m_width (uarray2_methods_plain_struct :: ('a UArray2_T, int, 'cl) A2Methods_T) g = w \<and>
      m_height (uarray2_methods_plain_struct :: ('a UArray2_T, int, 'cl) A2Methods_T) g = h"
    by (simp add: UArray2_new_def UArray2_wf_def)
next
  fix g :: "'a UArray2_T"
  assume "UArray2_wf g"
  then show "0 < m_width (uarray2_methods_plain_struct :: ('a UArray2_T, int, 'cl) A2Methods_T) g"
    "0 < m_height (uarray2_methods_plain_struct :: ('a UArray2_T, int, 'cl) A2Methods_T) g"
    by (simp_all add: UArray2_wf_def)
next
  fix g :: "'a UArray2_T" and col row
  assume "UArray2_wf g \<and>
    in_bounds (uarray2_methods_plain_struct :: ('a UArray2_T, int, 'cl) A2Methods_T) g col row"
  then show "\<exists>p. m_at (uarray2_methods_plain_struct :: ('a UArray2_T, int, 'cl) A2Methods_T)
      g col row = Inr p"
    by (simp add: in_bounds_def UArray2_at_def)
next
  fix g :: "'a UArray2_T" and col row p v
  let ?M = "uarray2_methods_plain_struct :: ('a UArray2_T, int, 'cl) A2Methods_T"
  assume h: "UArray2_wf g \<and> in_bounds ?M g col row \<and> m_at ?M g col row = Inr p"
  then have wf: "UArray2_wf g"
    and a: "0 \<le> col" "col < ua2_width g" "0 \<le> row" "row < ua2_height g"
    and p: "p = row * ua2_width g + col"
    by (auto simp: in_bounds_def UArray2_at_def)
  show "UArray2_wf (mem_store UArray2_memory g p v)"
    using wf by (simp add: UArray2_memory_def UArray2_store_def UArray2_wf_def)
  show "m_width ?M (mem_store UArray2_memory g p v) = m_width ?M g"
    "m_height ?M (mem_store UArray2_memory g p v) = m_height ?M g"
    by (simp_all add: UArray2_memory_def UArray2_store_def)
  fix c r
  assume "in_bounds ?M g c r"
  then have b: "0 \<le> c" "c < ua2_width g" "0 \<le> r" "r < ua2_height g"
    by (simp_all add: in_bounds_def)
  have dims: "ua2_width (UArray2_store g q v) = ua2_width g"
    "ua2_height (UArray2_store g q v) = ua2_height g" for q
    by (simp_all add: UArray2_store_def)
  show "A2_read ?M UArray2_memory (mem_store UArray2_memory g p v) c r =
      (if c = col \<and> r = row then Inr v else A2_read ?M UArray2_memory g c r)"
    using UArray2_read_store [OF wf a b, of v] b
    by (simp add: A2_read_def UArray2_memory_def UArray2_at_def dims p)
qed

lemma plain_map_row_major_lawful:
  "map_lawful (uarray2_methods_plain_struct :: (('a::zero) UArray2_T, int, 'cl) A2Methods_T)
     UArray2_wf map_row_major"
  unfolding map_lawful_def
proof (intro allI impI)
  fix g :: "'a UArray2_T"
  let ?M = "uarray2_methods_plain_struct :: ('a UArray2_T, int, 'cl) A2Methods_T"
  show "\<exists>order. set order = {0..<m_width ?M g} \<times> {0..<m_height ?M g} \<and>
      (\<forall>f cl. map_row_major g f cl = foldM (visit (m_at ?M) f) order (g, cl))"
    by (rule exI [of _ "row_major_order (ua2_width g) (ua2_height g)"])
      (simp add: set_row_major_order map_row_major_def UArray2_map_row_major_foldM)
qed

lemma plain_map_col_major_lawful:
  "map_lawful (uarray2_methods_plain_struct :: (('a::zero) UArray2_T, int, 'cl) A2Methods_T)
     UArray2_wf map_col_major"
  unfolding map_lawful_def
proof (intro allI impI)
  fix g :: "'a UArray2_T"
  let ?M = "uarray2_methods_plain_struct :: ('a UArray2_T, int, 'cl) A2Methods_T"
  show "\<exists>order. set order = {0..<m_width ?M g} \<times> {0..<m_height ?M g} \<and>
      (\<forall>f cl. map_col_major g f cl = foldM (visit (m_at ?M) f) order (g, cl))"
    by (rule exI [of _ "col_major_order (ua2_width g) (ua2_height g)"])
      (simp add: set_col_major_order map_col_major_def UArray2_map_col_major_foldM)
qed

text \<open>
  \<open>C2\<close>.  For a lawful suite, a source array of width \<open>W\<close> and height \<open>H\<close>, a coordinate
  \<open>(col, row)\<close> of it in bounds and a destination array of the dimensions that the transform
  needs, each callback copies the element behind the source pointer to the destination
  cell of the spec's table and to no other: rotate 0 to \<open>(col, row)\<close>, rotate 90 to
  \<open>(H - row - 1, col)\<close>, rotate 180 to \<open>(W - col - 1, H - row - 1)\<close>, rotate 270 to
  \<open>(row, W - col - 1)\<close>, flip horizontal to \<open>(W - col - 1, row)\<close>, flip vertical to
  \<open>(col, H - row - 1)\<close> and transpose to \<open>(row, col)\<close>.
\<close>

theorem transform_callbacks_table:
  fixes M :: "('g, 'r, 'g result) A2Methods_T" and mem :: "('g, 'r, 'a) A2Memory"
  assumes law: "A2_lawful M mem ok" and okd: "ok dst"
    and ib: "in_bounds M src col row"
    and W: "W = m_width M src" and H: "H = m_height M src"
  shows "(m_width M dst = W \<and> m_height M dst = H \<longrightarrow>
            copies_to M mem ok
              (rotate_map M mem col row src ptr \<lparr>destination_map = dst, magnitude = 0\<rparr>)
              src ptr \<lparr>destination_map = dst, magnitude = 0\<rparr> col row
          \<and> copies_to M mem ok
              (rotate_map M mem col row src ptr \<lparr>destination_map = dst, magnitude = 180\<rparr>)
              src ptr \<lparr>destination_map = dst, magnitude = 180\<rparr> (W - col - 1) (H - row - 1)
          \<and> copies_to M mem ok
              (flip_map M mem col row src ptr \<lparr>destination_map = dst, magnitude = HORIZ\<rparr>)
              src ptr \<lparr>destination_map = dst, magnitude = HORIZ\<rparr> (W - col - 1) row
          \<and> copies_to M mem ok
              (flip_map M mem col row src ptr \<lparr>destination_map = dst, magnitude = VERT\<rparr>)
              src ptr \<lparr>destination_map = dst, magnitude = VERT\<rparr> col (H - row - 1))
       \<and> (m_width M dst = H \<and> m_height M dst = W \<longrightarrow>
            copies_to M mem ok
              (rotate_map M mem col row src ptr \<lparr>destination_map = dst, magnitude = 90\<rparr>)
              src ptr \<lparr>destination_map = dst, magnitude = 90\<rparr> (H - row - 1) col
          \<and> copies_to M mem ok
              (rotate_map M mem col row src ptr \<lparr>destination_map = dst, magnitude = 270\<rparr>)
              src ptr \<lparr>destination_map = dst, magnitude = 270\<rparr> row (W - col - 1)
          \<and> copies_to M mem ok
              (transpose_map M mem col row src ptr \<lparr>destination_map = dst, magnitude = mag\<rparr>)
              src ptr \<lparr>destination_map = dst, magnitude = mag\<rparr> row col)"
proof -
  have cp: "copies_to M mem ok
      (assign_pixel mem src ptr \<lparr>destination_map = dst, magnitude = m\<rparr> (Some (m_at M dst x y)))
      src ptr \<lparr>destination_map = dst, magnitude = m\<rparr> x y" if "in_bounds M dst x y" for x y m
    using assign_pixel_copies [OF law, of "\<lparr>destination_map = dst, magnitude = m\<rparr>" x y src ptr]
      okd that by simp
  from ib have b: "0 \<le> col" "col < W" "0 \<le> row" "row < H"
    by (simp_all add: in_bounds_def W H)
  have same: "in_bounds M dst col row" "in_bounds M dst (W - col - 1) (H - row - 1)"
      "in_bounds M dst (W - col - 1) row" "in_bounds M dst col (H - row - 1)"
    if "m_width M dst = W \<and> m_height M dst = H"
    using that b by (simp_all add: in_bounds_def)
  have swap: "in_bounds M dst (H - row - 1) col" "in_bounds M dst row (W - col - 1)"
      "in_bounds M dst row col"
    if "m_width M dst = H \<and> m_height M dst = W"
    using that b by (simp_all add: in_bounds_def)
  show ?thesis
    using same [THEN cp] swap [THEN cp]
    by (simp add: rotate_map_def flip_map_def transpose_map_def Let_def HORIZ_def VERT_def
        W [symmetric] H [symmetric])
qed

text \<open>
  The theorem at the plain suite, on the 2 by 3 array holding 0 to 5 in row-major order:
  the element 5 at \<open>(1, 2)\<close> goes to \<open>(0, 1)\<close> of a 3 by 2 destination under rotate 90 and
  to \<open>(0, 2)\<close> of a 2 by 3 destination under flip horizontal.
\<close>

theorem transform_callbacks_table_witness:
  "A2_lawful (uarray2_methods_plain_struct :: (nat UArray2_T, int, nat UArray2_T result) A2Methods_T)
     UArray2_memory UArray2_wf
   \<and> in_bounds (uarray2_methods_plain_struct :: (nat UArray2_T, int, nat UArray2_T result) A2Methods_T)
        \<lparr>ua2_width = 2, ua2_height = 3, ua2_size = 12, ua2_elems = [0, 1, 2, 3, 4, 5]\<rparr> 1 2
   \<and> copies_to (uarray2_methods_plain_struct :: (nat UArray2_T, int, nat UArray2_T result) A2Methods_T)
        UArray2_memory UArray2_wf
        (rotate_map uarray2_methods_plain_struct UArray2_memory 1 2
           \<lparr>ua2_width = 2, ua2_height = 3, ua2_size = 12, ua2_elems = [0, 1, 2, 3, 4, 5]\<rparr> 5
           \<lparr>destination_map =
              \<lparr>ua2_width = 3, ua2_height = 2, ua2_size = 12, ua2_elems = [0, 0, 0, 0, 0, 0]\<rparr>,
            magnitude = 90\<rparr>)
        \<lparr>ua2_width = 2, ua2_height = 3, ua2_size = 12, ua2_elems = [0, 1, 2, 3, 4, 5]\<rparr> 5
        \<lparr>destination_map =
           \<lparr>ua2_width = 3, ua2_height = 2, ua2_size = 12, ua2_elems = [0, 0, 0, 0, 0, 0]\<rparr>,
         magnitude = 90\<rparr> 0 1
   \<and> copies_to (uarray2_methods_plain_struct :: (nat UArray2_T, int, nat UArray2_T result) A2Methods_T)
        UArray2_memory UArray2_wf
        (flip_map uarray2_methods_plain_struct UArray2_memory 1 2
           \<lparr>ua2_width = 2, ua2_height = 3, ua2_size = 12, ua2_elems = [0, 1, 2, 3, 4, 5]\<rparr> 5
           \<lparr>destination_map =
              \<lparr>ua2_width = 2, ua2_height = 3, ua2_size = 12, ua2_elems = [0, 0, 0, 0, 0, 0]\<rparr>,
            magnitude = HORIZ\<rparr>)
        \<lparr>ua2_width = 2, ua2_height = 3, ua2_size = 12, ua2_elems = [0, 1, 2, 3, 4, 5]\<rparr> 5
        \<lparr>destination_map =
           \<lparr>ua2_width = 2, ua2_height = 3, ua2_size = 12, ua2_elems = [0, 0, 0, 0, 0, 0]\<rparr>,
         magnitude = HORIZ\<rparr> 0 2
   \<and> rotate_map (uarray2_methods_plain_struct :: (nat UArray2_T, int, nat UArray2_T result) A2Methods_T)
        UArray2_memory 1 2
        \<lparr>ua2_width = 2, ua2_height = 3, ua2_size = 12, ua2_elems = [0, 1, 2, 3, 4, 5]\<rparr> 5
        \<lparr>destination_map =
           \<lparr>ua2_width = 3, ua2_height = 2, ua2_size = 12, ua2_elems = [0, 0, 0, 0, 0, 0]\<rparr>,
         magnitude = 90\<rparr> =
      Inr (\<lparr>ua2_width = 2, ua2_height = 3, ua2_size = 12, ua2_elems = [0, 1, 2, 3, 4, 5]\<rparr>,
           \<lparr>destination_map =
              \<lparr>ua2_width = 3, ua2_height = 2, ua2_size = 12, ua2_elems = [0, 0, 0, 5, 0, 0]\<rparr>,
            magnitude = 90\<rparr>)"
proof -
  let ?M = "uarray2_methods_plain_struct :: (nat UArray2_T, int, nat UArray2_T result) A2Methods_T"
  let ?src = "\<lparr>ua2_width = 2, ua2_height = 3, ua2_size = 12, ua2_elems = [0, 1, 2, 3, 4, 5 :: nat]\<rparr>"
  let ?d32 = "\<lparr>ua2_width = 3, ua2_height = 2, ua2_size = 12, ua2_elems = [0, 0, 0, 0, 0, 0 :: nat]\<rparr>"
  let ?d23 = "\<lparr>ua2_width = 2, ua2_height = 3, ua2_size = 12, ua2_elems = [0, 0, 0, 0, 0, 0 :: nat]\<rparr>"
  have law: "A2_lawful ?M UArray2_memory UArray2_wf" by (rule plain_lawful)
  have wf: "UArray2_wf ?src" "UArray2_wf ?d32" "UArray2_wf ?d23"
    by (simp_all add: UArray2_wf_def)
  have ib: "in_bounds ?M ?src 1 2"
    by (simp add: in_bounds_def)
  have ev: "rotate_map ?M UArray2_memory 1 2 ?src 5 \<lparr>destination_map = ?d32, magnitude = 90\<rparr> =
      Inr (?src, \<lparr>destination_map =
              \<lparr>ua2_width = 3, ua2_height = 2, ua2_size = 12, ua2_elems = [0, 0, 0, 5, 0, 0]\<rparr>,
            magnitude = 90\<rparr>)"
    by (simp add: rotate_map_def assign_pixel_def UArray2_at_def UArray2_memory_def
        UArray2_load_def UArray2_store_def)
  show ?thesis
    using transform_callbacks_table [OF law wf(2) ib refl refl, of 5]
      transform_callbacks_table [OF law wf(3) ib refl refl, of 5] law ib ev
    by simp
qed

section \<open>One transform, and four rotations\<close>

lemma magnitude_ok_cases:
  assumes "magnitude_ok t m"
  obtains "t = ROTATE" "m = 0" | "t = ROTATE" "m = 90" | "t = ROTATE" "m = 180"
    | "t = ROTATE" "m = 270" | "t = FLIP" "m = HORIZ" | "t = FLIP" "m = VERT" | "t = TRANSPOSE"
  using assms unfolding magnitude_ok_def by blast

lemma transform_consts_distinct:
  "ROTATE \<noteq> FLIP" "ROTATE \<noteq> TRANSPOSE" "FLIP \<noteq> TRANSPOSE" "HORIZ \<noteq> VERT"
  "FLIP \<noteq> ROTATE" "TRANSPOSE \<noteq> ROTATE" "TRANSPOSE \<noteq> FLIP" "VERT \<noteq> HORIZ"
  by (simp_all add: ROTATE_def FLIP_def TRANSPOSE_def HORIZ_def VERT_def)

lemma dest_coord_in_bounds:
  assumes "magnitude_ok t m" "0 \<le> col" "col < W" "0 \<le> row" "row < H"
    and "dest_coord t m W H col row = (x, y)"
  shows "0 \<le> x \<and> x < (if swaps_dimensions t m then H else W) \<and>
         0 \<le> y \<and> y < (if swaps_dimensions t m then W else H)"
  using assms(1)
  by (cases rule: magnitude_ok_cases)
     (use assms(2-) in \<open>auto simp: dest_coord_def swaps_dimensions_def transform_consts_distinct\<close>)

lemma dest_coord_inj:
  assumes "magnitude_ok t m"
    and "dest_coord t m W H col row = dest_coord t m W H col' row'"
  shows "col = col' \<and> row = row'"
  using assms(1)
  by (cases rule: magnitude_ok_cases)
     (use assms(2) in \<open>auto simp: dest_coord_def transform_consts_distinct\<close>)

lemma callback_copies:
  fixes M :: "('g, 'r, 'g result) A2Methods_T" and mem :: "('g, 'r, 'a) A2Memory"
  assumes law: "A2_lawful M mem ok" and okd: "ok (destination_map cl)"
    and ib: "in_bounds M src col row"
    and mok: "magnitude_ok t (magnitude cl)"
    and dw: "m_width M (destination_map cl) =
               (if swaps_dimensions t (magnitude cl) then m_height M src else m_width M src)"
    and dh: "m_height M (destination_map cl) =
               (if swaps_dimensions t (magnitude cl) then m_width M src else m_height M src)"
    and xy: "dest_coord t (magnitude cl) (m_width M src) (m_height M src) col row = (x, y)"
  shows "\<exists>f. transform_init M mem None t = Some f \<and>
           copies_to M mem ok (f col row src ptr cl) src ptr cl x y"
proof -
  from ib have b: "0 \<le> col" "col < m_width M src" "0 \<le> row" "row < m_height M src"
    by (simp_all add: in_bounds_def)
  have ib': "in_bounds M (destination_map cl) x y"
    using dest_coord_in_bounds [OF mok b xy] by (simp add: in_bounds_def dw dh)
  have cp: "copies_to M mem ok
      (assign_pixel mem src ptr cl (Some (m_at M (destination_map cl) x y))) src ptr cl x y"
    by (rule assign_pixel_copies [OF law okd ib'])
  have "\<exists>f. transform_init M mem None t = Some f \<and>
      f col row src ptr cl = assign_pixel mem src ptr cl (Some (m_at M (destination_map cl) x y))"
    using mok
  proof (cases rule: magnitude_ok_cases)
    case 1
    with xy have "x = col" "y = row" by (simp_all add: dest_coord_def)
    with 1 show ?thesis by (simp add: transform_init_def rotate_map_def Let_def)
  next
    case 2
    with xy have "x = m_height M src - row - 1" "y = col" by (simp_all add: dest_coord_def)
    with 2 show ?thesis by (simp add: transform_init_def rotate_map_def Let_def)
  next
    case 3
    with xy have "x = m_width M src - col - 1" "y = m_height M src - row - 1"
      by (simp_all add: dest_coord_def)
    with 3 show ?thesis by (simp add: transform_init_def rotate_map_def Let_def)
  next
    case 4
    with xy have "x = row" "y = m_width M src - col - 1" by (simp_all add: dest_coord_def)
    with 4 show ?thesis by (simp add: transform_init_def rotate_map_def Let_def)
  next
    case 5
    with xy have "x = m_width M src - col - 1" "y = row"
      by (simp_all add: dest_coord_def transform_consts_distinct)
    with 5 show ?thesis
      by (simp add: transform_init_def flip_map_def Let_def transform_consts_distinct)
  next
    case 6
    with xy have "x = col" "y = m_height M src - row - 1"
      by (simp_all add: dest_coord_def transform_consts_distinct)
    with 6 show ?thesis
      by (simp add: transform_init_def flip_map_def Let_def transform_consts_distinct)
  next
    case 7
    with xy have "x = row" "y = col"
      by (simp_all add: dest_coord_def transform_consts_distinct)
    with 7 show ?thesis
      by (simp add: transform_init_def transpose_map_def Let_def transform_consts_distinct)
  qed
  with cp show ?thesis by auto
qed

lemma create_image_ok:
  fixes M :: "('g, 'r, 'cl) A2Methods_T"
  assumes law: "A2_lawful M mem ok" and "0 < ppm_width ppm" "0 < ppm_height ppm"
  shows "\<exists>dst. create_image ppm M t mag =
            Inr (if swaps_dimensions t mag
                 then ppm\<lparr>ppm_width := ppm_height ppm, ppm_height := ppm_width ppm\<rparr> else ppm, dst)
          \<and> ok dst
          \<and> m_width M dst = (if swaps_dimensions t mag then ppm_height ppm else ppm_width ppm)
          \<and> m_height M dst = (if swaps_dimensions t mag then ppm_width ppm else ppm_height ppm)"
proof -
  have new: "\<exists>g. m_new M w h sizeof_Pnm_rgb = Inr g \<and> ok g \<and> m_width M g = w \<and> m_height M g = h"
    if "0 < w" "0 < h" for w h
    using law that unfolding A2_lawful_def by (simp add: sizeof_Pnm_rgb_def)
  show ?thesis
  proof (cases "swaps_dimensions t mag")
    case True
    from new [OF assms(3) assms(2)] obtain g where
      "m_new M (ppm_height ppm) (ppm_width ppm) sizeof_Pnm_rgb = Inr g" "ok g"
      "m_width M g = ppm_height ppm" "m_height M g = ppm_width ppm"
      by blast
    with True show ?thesis
      by (auto simp: create_image_def Let_def swaps_dimensions_def)
  next
    case False
    from new [OF assms(2) assms(3)] obtain g where
      "m_new M (ppm_width ppm) (ppm_height ppm) sizeof_Pnm_rgb = Inr g" "ok g"
      "m_width M g = ppm_width ppm" "m_height M g = ppm_height ppm"
      by blast
    with False show ?thesis
      by (auto simp: create_image_def Let_def swaps_dimensions_def)
  qed
qed

lemma traversal_copies:
  fixes M :: "('g, 'r, 'g result) A2Methods_T" and mem :: "('g, 'r, 'a) A2Memory"
  assumes law: "A2_lawful M mem ok" and oks: "ok src" and okd: "ok dst"
    and mok: "magnitude_ok t mag"
    and dw: "m_width M dst = (if swaps_dimensions t mag then m_height M src else m_width M src)"
    and dh: "m_height M dst = (if swaps_dimensions t mag then m_width M src else m_height M src)"
    and init: "transform_init M mem None t = Some f"
    and sub: "set order \<subseteq> {0..<m_width M src} \<times> {0..<m_height M src}"
  shows "\<exists>dst'. foldM (visit (m_at M) f) order (src, \<lparr>destination_map = dst, magnitude = mag\<rparr>) =
            Inr (src, \<lparr>destination_map = dst', magnitude = mag\<rparr>)
          \<and> ok dst' \<and> m_width M dst' = m_width M dst \<and> m_height M dst' = m_height M dst
          \<and> (\<forall>col row x y. (col, row) \<in> set order \<and>
                dest_coord t mag (m_width M src) (m_height M src) col row = (x, y) \<longrightarrow>
                A2_read M mem dst' x y = A2_read M mem src col row)"
proof -
  define W where "W = m_width M src"
  define H where "H = m_height M src"
  define P where "P = (\<lambda>seen (g, cl :: 'g result).
      g = src \<and> magnitude cl = mag \<and> ok (destination_map cl)
    \<and> m_width M (destination_map cl) = m_width M dst
    \<and> m_height M (destination_map cl) = m_height M dst
    \<and> set seen \<subseteq> set order
    \<and> (\<forall>col row x y. (col, row) \<in> set seen \<and> dest_coord t mag W H col row = (x, y) \<longrightarrow>
          A2_read M mem (destination_map cl) x y = A2_read M mem src col row))"
  have P0: "P [] (src, \<lparr>destination_map = dst, magnitude = mag\<rparr>)"
    by (simp add: P_def okd)
  have step: "\<exists>s'. visit (m_at M) f c s = Inr s' \<and> P (seen @ [c]) s'"
    if inv: "P seen s" and c: "c \<in> set order" for seen c s
  proof -
    obtain g cl where s: "s = (g, cl)" by (cases s)
    obtain col row where cr: "c = (col, row)" by (cases c)
    from inv s have g: "g = src" and m: "magnitude cl = mag" and okc: "ok (destination_map cl)"
      and w: "m_width M (destination_map cl) = m_width M dst"
      and h: "m_height M (destination_map cl) = m_height M dst"
      and seen: "set seen \<subseteq> set order"
      and old: "\<And>col row x y. (col, row) \<in> set seen \<Longrightarrow> dest_coord t mag W H col row = (x, y) \<Longrightarrow>
          A2_read M mem (destination_map cl) x y = A2_read M mem src col row"
      by (simp_all add: P_def)
    from c cr sub have ib: "in_bounds M src col row"
      by (auto simp: in_bounds_def)
    obtain ptr where ptr: "m_at M src col row = Inr ptr"
      using A2_lawful_at [OF law oks ib] .
    obtain x y where xy: "dest_coord t mag W H col row = (x, y)"
      by (cases "dest_coord t mag W H col row")
    from callback_copies [OF law okc ib, of t x y ptr] mok m w h dw dh xy init
    have "copies_to M mem ok (f col row src ptr cl) src ptr cl x y"
      by (simp add: W_def H_def)
    then obtain dst' where d: "f col row src ptr cl = Inr (src, cl\<lparr>destination_map := dst'\<rparr>)"
      "ok dst'" "m_width M dst' = m_width M (destination_map cl)"
      "m_height M dst' = m_height M (destination_map cl)"
      "A2_read M mem dst' x y = Inr (mem_load mem src ptr)"
      "\<And>c r. in_bounds M (destination_map cl) c r \<Longrightarrow> (c, r) \<noteq> (x, y) \<Longrightarrow>
          A2_read M mem dst' c r = A2_read M mem (destination_map cl) c r"
      unfolding copies_to_def by blast
    have res: "visit (m_at M) f c s = Inr (src, cl\<lparr>destination_map := dst'\<rparr>)"
      by (simp add: visit_def cr s g ptr d(1))
    have new: "A2_read M mem dst' x' y' = A2_read M mem src col' row'"
      if mem: "(col', row') \<in> set (seen @ [c])" and xy': "dest_coord t mag W H col' row' = (x', y')"
      for col' row' x' y'
    proof (cases "(col', row') = (col, row)")
      case True
      with xy xy' have "x' = x" "y' = y" by simp_all
      with d(5) True ptr show ?thesis
        by (simp add: A2_read_def)
    next
      case False
      with mem cr have in_seen: "(col', row') \<in> set seen" by auto
      with seen sub have b: "0 \<le> col'" "col' < W" "0 \<le> row'" "row' < H"
        by (auto simp: W_def H_def)
      have "in_bounds M (destination_map cl) x' y'"
        using dest_coord_in_bounds [OF mok b xy']
        by (auto simp: in_bounds_def w h dw dh W_def H_def split: if_splits)
      moreover have "(x', y') \<noteq> (x, y)"
        using dest_coord_inj [OF mok, of W H col' row' col row] xy xy' False by auto
      ultimately have "A2_read M mem dst' x' y' = A2_read M mem (destination_map cl) x' y'"
        by (rule d(6))
      with old [OF in_seen xy'] show ?thesis by simp
    qed
    have "P (seen @ [c]) (src, cl\<lparr>destination_map := dst'\<rparr>)"
      unfolding P_def using new m d(2,3,4) w h seen c by auto
    with res show ?thesis by blast
  qed
  have "\<exists>s'. foldM (visit (m_at M) f) order (src, \<lparr>destination_map = dst, magnitude = mag\<rparr>) = Inr s'
          \<and> P ([] @ order) s'"
  proof (rule foldM_invariant [where P = P])
    show "P [] (src, \<lparr>destination_map = dst, magnitude = mag\<rparr>)" by (rule P0)
  next
    fix seen c s
    assume "P seen s" "c \<in> set order"
    then show "\<exists>s'. visit (m_at M) f c s = Inr s' \<and> P (seen @ [c]) s'" by (rule step)
  qed
  then obtain g cl where fin: "foldM (visit (m_at M) f) order
      (src, \<lparr>destination_map = dst, magnitude = mag\<rparr>) = Inr (g, cl)" "P order (g, cl)"
    by auto
  from fin(2) have "cl = \<lparr>destination_map = destination_map cl, magnitude = mag\<rparr>" "g = src"
    by (simp_all add: P_def)
  with fin show ?thesis
    unfolding P_def W_def H_def by (intro exI [of _ "destination_map cl"]) auto
qed

lemma transform_cells:
  fixes M :: "('g, 'r, 'g result) A2Methods_T" and mem :: "('g, 'r, 'a) A2Memory"
  assumes law: "A2_lawful M mem ok" and ml: "map_lawful M ok mapf"
    and oks: "ok (ppm_pixels ppm)"
    and pw: "ppm_width ppm = m_width M (ppm_pixels ppm)"
    and ph: "ppm_height ppm = m_height M (ppm_pixels ppm)"
    and mok: "magnitude_ok t mag"
  shows "\<exists>ppm'. transform ppm M mem (Some mapf) t mag = Inr ppm'
          \<and> ok (ppm_pixels ppm')
          \<and> ppm_width ppm' = m_width M (ppm_pixels ppm')
          \<and> ppm_height ppm' = m_height M (ppm_pixels ppm')
          \<and> ppm_width ppm' = (if swaps_dimensions t mag then ppm_height ppm else ppm_width ppm)
          \<and> ppm_height ppm' = (if swaps_dimensions t mag then ppm_width ppm else ppm_height ppm)
          \<and> ppm_denominator ppm' = ppm_denominator ppm
          \<and> (\<forall>col row x y. in_bounds M (ppm_pixels ppm) col row \<and>
                dest_coord t mag (ppm_width ppm) (ppm_height ppm) col row = (x, y) \<longrightarrow>
                A2_read M mem (ppm_pixels ppm') x y = A2_read M mem (ppm_pixels ppm) col row)"
proof -
  define src where "src = ppm_pixels ppm"
  have pos: "0 < ppm_width ppm" "0 < ppm_height ppm"
    using law oks unfolding A2_lawful_def by (simp_all add: pw ph)
  define ppm1 where "ppm1 = (if swaps_dimensions t mag
      then ppm\<lparr>ppm_width := ppm_height ppm, ppm_height := ppm_width ppm\<rparr> else ppm)"
  obtain dst where dst: "create_image ppm M t mag = Inr (ppm1, dst)" "ok dst"
    "m_width M dst = (if swaps_dimensions t mag then ppm_height ppm else ppm_width ppm)"
    "m_height M dst = (if swaps_dimensions t mag then ppm_width ppm else ppm_height ppm)"
    using create_image_ok [OF law pos, of t mag] unfolding ppm1_def by blast
  have px1: "ppm_pixels ppm1 = src"
    by (simp add: ppm1_def src_def)
  obtain f where f: "transform_init M mem None t = Some f"
    using mok by (cases rule: magnitude_ok_cases)
      (simp_all add: transform_init_def transform_consts_distinct)
  from ml oks obtain order where order: "set order = {0..<m_width M src} \<times> {0..<m_height M src}"
    "\<And>g cl. mapf src g cl = foldM (visit (m_at M) g) order (src, cl)"
    unfolding map_lawful_def src_def by blast
  have oks': "ok src"
    using oks by (simp add: src_def)
  have dw: "m_width M dst = (if swaps_dimensions t mag then m_height M src else m_width M src)"
    and dh: "m_height M dst = (if swaps_dimensions t mag then m_width M src else m_height M src)"
    using dst(3,4) by (simp_all add: src_def pw ph)
  have sub: "set order \<subseteq> {0..<m_width M src} \<times> {0..<m_height M src}"
    using order(1) by simp
  from traversal_copies [OF law oks' dst(2) mok dw dh f sub]
  obtain dst' where d: "foldM (visit (m_at M) f) order
        (src, \<lparr>destination_map = dst, magnitude = mag\<rparr>) =
      Inr (src, \<lparr>destination_map = dst', magnitude = mag\<rparr>)"
    "ok dst'" "m_width M dst' = m_width M dst" "m_height M dst' = m_height M dst"
    "\<And>col row x y. (col, row) \<in> set order \<Longrightarrow>
        dest_coord t mag (m_width M src) (m_height M src) col row = (x, y) \<Longrightarrow>
        A2_read M mem dst' x y = A2_read M mem src col row"
    by blast
  have res: "transform ppm M mem (Some mapf) t mag = Inr (ppm1\<lparr>ppm_pixels := dst'\<rparr>)"
    by (simp add: transform_def dst(1) Let_def result_init_def f transform_image_def px1
        order(2) d(1) reassign_def)
  show ?thesis
  proof (intro exI conjI allI impI)
    show "transform ppm M mem (Some mapf) t mag = Inr (ppm1\<lparr>ppm_pixels := dst'\<rparr>)" by (rule res)
    show "ok (ppm_pixels (ppm1\<lparr>ppm_pixels := dst'\<rparr>))" using d(2) by simp
    show "ppm_width (ppm1\<lparr>ppm_pixels := dst'\<rparr>) = m_width M (ppm_pixels (ppm1\<lparr>ppm_pixels := dst'\<rparr>))"
      using d(3) dst(3) by (simp add: ppm1_def)
    show "ppm_height (ppm1\<lparr>ppm_pixels := dst'\<rparr>) = m_height M (ppm_pixels (ppm1\<lparr>ppm_pixels := dst'\<rparr>))"
      using d(4) dst(4) by (simp add: ppm1_def)
    show "ppm_width (ppm1\<lparr>ppm_pixels := dst'\<rparr>) =
        (if swaps_dimensions t mag then ppm_height ppm else ppm_width ppm)"
      by (simp add: ppm1_def)
    show "ppm_height (ppm1\<lparr>ppm_pixels := dst'\<rparr>) =
        (if swaps_dimensions t mag then ppm_width ppm else ppm_height ppm)"
      by (simp add: ppm1_def)
    show "ppm_denominator (ppm1\<lparr>ppm_pixels := dst'\<rparr>) = ppm_denominator ppm"
      by (simp add: ppm1_def)
  next
    fix col row x y
    assume a: "in_bounds M (ppm_pixels ppm) col row \<and>
        dest_coord t mag (ppm_width ppm) (ppm_height ppm) col row = (x, y)"
    then have "(col, row) \<in> set order"
      by (simp add: order(1) in_bounds_def src_def)
    from d(5) [OF this, of x y] a
    show "A2_read M mem (ppm_pixels (ppm1\<lparr>ppm_pixels := dst'\<rparr>)) x y =
        A2_read M mem (ppm_pixels ppm) col row"
      by (simp add: src_def pw ph)
  qed
qed

text \<open>
  \<open>C6\<close>.  For a lawful suite with a lawful traversal and an image whose recorded
  dimensions are those of its pixel array, four rotations by 90 in succession all succeed,
  and the last image has the width, the height and, cell by cell, the content of the
  first.
\<close>

theorem rotate_90_four_times:
  fixes M :: "('g, 'r, 'g result) A2Methods_T" and mem :: "('g, 'r, 'a) A2Memory"
  assumes law: "A2_lawful M mem ok" and ml: "map_lawful M ok mapf"
    and oks: "ok (ppm_pixels ppm)"
    and pw: "ppm_width ppm = m_width M (ppm_pixels ppm)"
    and ph: "ppm_height ppm = m_height M (ppm_pixels ppm)"
  shows "\<exists>ppm1 ppm2 ppm3 ppm4.
            transform ppm M mem (Some mapf) ROTATE 90 = Inr ppm1
          \<and> transform ppm1 M mem (Some mapf) ROTATE 90 = Inr ppm2
          \<and> transform ppm2 M mem (Some mapf) ROTATE 90 = Inr ppm3
          \<and> transform ppm3 M mem (Some mapf) ROTATE 90 = Inr ppm4
          \<and> ppm_width ppm4 = ppm_width ppm \<and> ppm_height ppm4 = ppm_height ppm
          \<and> m_width M (ppm_pixels ppm4) = m_width M (ppm_pixels ppm)
          \<and> m_height M (ppm_pixels ppm4) = m_height M (ppm_pixels ppm)
          \<and> (\<forall>col row. in_bounds M (ppm_pixels ppm) col row \<longrightarrow>
                A2_read M mem (ppm_pixels ppm4) col row = A2_read M mem (ppm_pixels ppm) col row)"
proof -
  define W where "W = ppm_width ppm"
  define H where "H = ppm_height ppm"
  have mok: "magnitude_ok ROTATE 90" and sw: "swaps_dimensions ROTATE 90"
    by (simp_all add: magnitude_ok_def swaps_dimensions_def)
  have dc: "dest_coord ROTATE 90 w h col row = (h - row - 1, col)" for w h col row
    by (simp add: dest_coord_def)
  note step = transform_cells [OF law ml _ _ _ mok, unfolded dc, simplified sw if_True]
  from step [OF oks pw ph] obtain p1 where p1:
    "transform ppm M mem (Some mapf) ROTATE 90 = Inr p1" "ok (ppm_pixels p1)"
    "ppm_width p1 = m_width M (ppm_pixels p1)" "ppm_height p1 = m_height M (ppm_pixels p1)"
    "ppm_width p1 = H" "ppm_height p1 = W"
    "\<And>col row. in_bounds M (ppm_pixels ppm) col row \<Longrightarrow>
       A2_read M mem (ppm_pixels p1) (H - row - 1) col = A2_read M mem (ppm_pixels ppm) col row"
    unfolding W_def H_def by auto
  from step [OF p1(2,3,4)] obtain p2 where p2:
    "transform p1 M mem (Some mapf) ROTATE 90 = Inr p2" "ok (ppm_pixels p2)"
    "ppm_width p2 = m_width M (ppm_pixels p2)" "ppm_height p2 = m_height M (ppm_pixels p2)"
    "ppm_width p2 = W" "ppm_height p2 = H"
    "\<And>col row. in_bounds M (ppm_pixels p1) col row \<Longrightarrow>
       A2_read M mem (ppm_pixels p2) (W - row - 1) col = A2_read M mem (ppm_pixels p1) col row"
    unfolding p1(5,6) by auto
  from step [OF p2(2,3,4)] obtain p3 where p3:
    "transform p2 M mem (Some mapf) ROTATE 90 = Inr p3" "ok (ppm_pixels p3)"
    "ppm_width p3 = m_width M (ppm_pixels p3)" "ppm_height p3 = m_height M (ppm_pixels p3)"
    "ppm_width p3 = H" "ppm_height p3 = W"
    "\<And>col row. in_bounds M (ppm_pixels p2) col row \<Longrightarrow>
       A2_read M mem (ppm_pixels p3) (H - row - 1) col = A2_read M mem (ppm_pixels p2) col row"
    unfolding p2(5,6) by auto
  from step [OF p3(2,3,4)] obtain p4 where p4:
    "transform p3 M mem (Some mapf) ROTATE 90 = Inr p4" "ok (ppm_pixels p4)"
    "ppm_width p4 = m_width M (ppm_pixels p4)" "ppm_height p4 = m_height M (ppm_pixels p4)"
    "ppm_width p4 = W" "ppm_height p4 = H"
    "\<And>col row. in_bounds M (ppm_pixels p3) col row \<Longrightarrow>
       A2_read M mem (ppm_pixels p4) (W - row - 1) col = A2_read M mem (ppm_pixels p3) col row"
    unfolding p3(5,6) by auto
  have cells: "A2_read M mem (ppm_pixels p4) col row = A2_read M mem (ppm_pixels ppm) col row"
    if ib: "in_bounds M (ppm_pixels ppm) col row" for col row
  proof -
    from ib have b: "0 \<le> col" "col < W" "0 \<le> row" "row < H"
      by (simp_all add: in_bounds_def W_def H_def pw ph)
    have "in_bounds M (ppm_pixels p3) row (W - col - 1)"
      using b p3(3,4,5,6) by (simp add: in_bounds_def)
    from p4(7) [OF this] have e4: "A2_read M mem (ppm_pixels p4) col row =
        A2_read M mem (ppm_pixels p3) row (W - col - 1)"
      by simp
    have "in_bounds M (ppm_pixels p2) (W - col - 1) (H - row - 1)"
      using b p2(3,4,5,6) by (simp add: in_bounds_def)
    from p3(7) [OF this] have e3: "A2_read M mem (ppm_pixels p3) row (W - col - 1) =
        A2_read M mem (ppm_pixels p2) (W - col - 1) (H - row - 1)"
      by simp
    have "in_bounds M (ppm_pixels p1) (H - row - 1) col"
      using b p1(3,4,5,6) by (simp add: in_bounds_def)
    from p2(7) [OF this] have e2: "A2_read M mem (ppm_pixels p2) (W - col - 1) (H - row - 1) =
        A2_read M mem (ppm_pixels p1) (H - row - 1) col"
      by simp
    from e4 e3 e2 p1(7) [OF ib] show ?thesis by simp
  qed
  show ?thesis
    using p1(1) p2(1) p3(1) p4(1) p4(3,4,5,6) cells pw ph
    by (intro exI [of _ p1] exI [of _ p2] exI [of _ p3] exI [of _ p4]) (simp add: W_def H_def)
qed

text \<open>
  The theorem at the plain suite with its column-major traversal, on the 2 by 3 image
  holding 0 to 5.
\<close>

theorem rotate_90_four_times_witness:
  "A2_lawful (uarray2_methods_plain_struct :: (nat UArray2_T, int, nat UArray2_T result) A2Methods_T)
     UArray2_memory UArray2_wf
   \<and> map_lawful (uarray2_methods_plain_struct :: (nat UArray2_T, int, nat UArray2_T result) A2Methods_T)
        UArray2_wf map_col_major
   \<and> UArray2_wf \<lparr>ua2_width = 2, ua2_height = 3, ua2_size = 12, ua2_elems = [0, 1, 2, 3, 4, 5 :: nat]\<rparr>
   \<and> (\<exists>ppm1 ppm2 ppm3 ppm4.
         transform
           \<lparr>ppm_width = 2, ppm_height = 3, ppm_denominator = 255,
            ppm_pixels = \<lparr>ua2_width = 2, ua2_height = 3, ua2_size = 12,
                          ua2_elems = [0, 1, 2, 3, 4, 5 :: nat]\<rparr>\<rparr>
           uarray2_methods_plain_struct UArray2_memory (Some map_col_major) ROTATE 90 = Inr ppm1
       \<and> transform ppm1 uarray2_methods_plain_struct UArray2_memory (Some map_col_major) ROTATE 90
           = Inr ppm2
       \<and> transform ppm2 uarray2_methods_plain_struct UArray2_memory (Some map_col_major) ROTATE 90
           = Inr ppm3
       \<and> transform ppm3 uarray2_methods_plain_struct UArray2_memory (Some map_col_major) ROTATE 90
           = Inr ppm4
       \<and> ppm_width ppm4 = 2 \<and> ppm_height ppm4 = 3
       \<and> A2_read (uarray2_methods_plain_struct
              :: (nat UArray2_T, int, nat UArray2_T result) A2Methods_T) UArray2_memory
            (ppm_pixels ppm4) 1 2 = Inr 5)"
proof -
  let ?M = "uarray2_methods_plain_struct :: (nat UArray2_T, int, nat UArray2_T result) A2Methods_T"
  let ?src = "\<lparr>ua2_width = 2, ua2_height = 3, ua2_size = 12, ua2_elems = [0, 1, 2, 3, 4, 5 :: nat]\<rparr>"
  let ?ppm = "\<lparr>ppm_width = 2, ppm_height = 3, ppm_denominator = 255, ppm_pixels = ?src\<rparr>"
  have law: "A2_lawful ?M UArray2_memory UArray2_wf" by (rule plain_lawful)
  have ml: "map_lawful ?M UArray2_wf map_col_major" by (rule plain_map_col_major_lawful)
  have wf: "UArray2_wf (ppm_pixels ?ppm)"
    by (simp add: UArray2_wf_def)
  have rd: "in_bounds ?M ?src 1 2" "A2_read ?M UArray2_memory ?src 1 2 = Inr 5"
    by (simp_all add: in_bounds_def A2_read_def UArray2_at_def UArray2_memory_def UArray2_load_def)
  from rotate_90_four_times [OF law ml wf] obtain p1 p2 p3 p4 where
    "transform ?ppm ?M UArray2_memory (Some map_col_major) ROTATE 90 = Inr p1"
    "transform p1 ?M UArray2_memory (Some map_col_major) ROTATE 90 = Inr p2"
    "transform p2 ?M UArray2_memory (Some map_col_major) ROTATE 90 = Inr p3"
    "transform p3 ?M UArray2_memory (Some map_col_major) ROTATE 90 = Inr p4"
    "ppm_width p4 = 2" "ppm_height p4 = 3"
    "\<forall>col row. in_bounds ?M ?src col row \<longrightarrow>
       A2_read ?M UArray2_memory (ppm_pixels p4) col row = A2_read ?M UArray2_memory ?src col row"
    by auto
  with rd law ml wf show ?thesis
    by (intro conjI exI [of _ p1] exI [of _ p2] exI [of _ p3] exI [of _ p4]) simp_all
qed

text \<open>
  The blocked array with \<open>UArray2b_new_64K_block\<close>, \<open>UArray2b_at\<close> and \<open>UArray2b_map\<close>
  satisfies the contract of a suite, so the theorems about the transform engine hold for a
  suite made of them and its block-major traversal.
\<close>

lemma UArray2b_new_64K_block_wf:
  fixes w h sz :: int
  assumes "0 < w" "0 < h" "0 < sz"
  shows "\<exists>g :: ('a::zero) UArray2b_T. UArray2b_new_64K_block w h sz = Inr g \<and> UArray2b_wf g \<and>
           u2b_width g = w \<and> u2b_height g = h"
proof -
  note rng = blocksize_64K_range [OF assms]
  have "UArray2b_new w h sz (blocksize_64K w h sz) =
      Inr (\<lparr>u2b_width = w, u2b_height = h, u2b_size = sz, u2b_blocksize = blocksize_64K w h sz,
           u2b_blocks = init_blocks w h (blocksize_64K w h sz)\<rparr> :: 'a UArray2b_T)"
    unfolding UArray2b_new_def by (rule UArray2b_init_ok [OF assms rng])
  from UArray2b_new_wf [OF this] this assms(3) show ?thesis
    by (simp add: UArray2b_new_64K_block_def UArray2b_new_def)
qed

lemma blocked_lawful:
  fixes M :: "(('a::zero) UArray2b_T, UArray2b_ref, 'cl) A2Methods_T"
  assumes new: "m_new M = UArray2b_new_64K_block"
    and width: "m_width M = UArray2b_width" and height: "m_height M = UArray2b_height"
    and at: "m_at M = UArray2b_at"
  shows "A2_lawful M UArray2b_memory UArray2b_wf"
    and "map_lawful M UArray2b_wf UArray2b_map"
proof -
  have dims [simp]: "m_width M g = u2b_width g" "m_height M g = u2b_height g" for g
    by (simp_all add: width height UArray2b_width_def UArray2b_height_def)
  show "A2_lawful M UArray2b_memory UArray2b_wf"
    unfolding A2_lawful_def
  proof (intro conjI allI impI)
    fix w h sz :: int
    assume "0 < w \<and> 0 < h \<and> 0 < sz"
    then show "\<exists>g. m_new M w h sz = Inr g \<and> UArray2b_wf g \<and> m_width M g = w \<and> m_height M g = h"
      using UArray2b_new_64K_block_wf [of w h sz, where 'a = 'a] by (simp add: new)
  next
    fix g :: "'a UArray2b_T"
    assume "UArray2b_wf g"
    then show "0 < m_width M g" "0 < m_height M g"
      by (simp_all add: UArray2b_wf_def)
  next
    fix g :: "'a UArray2b_T" and col row
    assume "UArray2b_wf g \<and> in_bounds M g col row"
    then show "\<exists>p. m_at M g col row = Inr p"
      using UArray2b_at_in_bounds(2) [of g col row] by (simp add: in_bounds_def at)
  next
    fix g :: "'a UArray2b_T" and col row p v
    assume h: "UArray2b_wf g \<and> in_bounds M g col row \<and> m_at M g col row = Inr p"
    then have wf: "UArray2b_wf g"
      and c: "0 \<le> col" "col < u2b_width g" and r: "0 \<le> row" "row < u2b_height g"
      by (simp_all add: in_bounds_def)
    from h UArray2b_at_in_bounds(2) [OF wf c r] have p: "p = UArray2b_cell g col row"
      by (simp add: at)
    note b = UArray2b_cell_bounds(9-12) [OF wf c r, folded p]
    note st = UArray2b_store_laws [OF wf b, where v = v, unfolded prod.collapse]
    show "UArray2b_wf (mem_store UArray2b_memory g p v)"
      using st(1) by (simp add: UArray2b_memory_def)
    show "m_width M (mem_store UArray2b_memory g p v) = m_width M g"
      "m_height M (mem_store UArray2b_memory g p v) = m_height M g"
      by (simp_all add: UArray2b_memory_def)
    fix x y
    assume "in_bounds M g x y"
    then have x: "0 \<le> x" "x < u2b_width g" and y: "0 \<le> y" "y < u2b_height g"
      by (simp_all add: in_bounds_def)
    define q where "q = UArray2b_cell g x y"
    note bq = UArray2b_cell_bounds(9-12) [OF wf x y, folded q_def]
    have atq: "UArray2b_at g x y = Inr q"
      using UArray2b_at_in_bounds(2) [OF wf x y] by (simp add: q_def)
    have atq': "UArray2b_at (UArray2b_store g p v) x y = Inr q"
      using UArray2b_at_in_bounds(2) [OF st(1), of x y] x y by (simp add: q_def)
    have ld: "UArray2b_load (UArray2b_store g p v) q = (if x = col \<and> y = row then v else UArray2b_load g q)"
    proof (cases "x = col \<and> y = row")
      case True
      then have "q = p" by (simp add: q_def p)
      with st(2) True show ?thesis by simp
    next
      case False
      with UArray2b_cell_inj [OF wf c r x y] have "(fst q, snd q) \<noteq> p"
        by (auto simp: p q_def)
      from st(3) [OF bq this] False show ?thesis by auto
    qed
    show "A2_read M UArray2b_memory (mem_store UArray2b_memory g p v) x y =
        (if x = col \<and> y = row then Inr v else A2_read M UArray2b_memory g x y)"
      using atq atq' ld by (simp add: A2_read_def at UArray2b_memory_def)
  qed
  show "map_lawful M UArray2b_wf UArray2b_map"
    unfolding map_lawful_def
  proof (intro allI impI)
    fix g :: "'a UArray2b_T"
    assume wf: "UArray2b_wf g"
    then have pos: "0 < u2b_blocksize g" "0 < u2b_width g" "0 < u2b_height g"
      by (simp_all add: UArray2b_wf_def)
    show "\<exists>order. set order = {0..<m_width M g} \<times> {0..<m_height M g} \<and>
        (\<forall>f cl. UArray2b_map g f cl = foldM (visit (m_at M) f) order (g, cl))"
      by (rule exI [of _ "block_major_order (u2b_width g) (u2b_height g) (u2b_blocksize g)"])
        (simp add: set_block_major_order [OF pos] UArray2b_map_foldM [OF wf] at)
  qed
qed

end
